theory Spec2Isabelle
  imports Main
begin

section \<open>Strings and slices as Python has them\<close>

text \<open>
  The program is \<^verbatim>\<open>src/fetch_top_cryptos.py\<close>. A Python string is modelled by its UTF-8
  encoding, a \<^typ>\<open>string\<close>: a literal of the program, being ASCII, is the same literal
  here, \<^verbatim>\<open>+\<close> is \<open>@\<close>, equal strings have equal encodings, and \<^verbatim>\<open>startswith\<close> and
  \<^verbatim>\<open>endswith\<close> hold of two strings exactly when they hold of their encodings. The quote
  currency is the literal \<^verbatim>\<open>'USDT'\<close>.

  \<^verbatim>\<open>str.upper()\<close> follows the Unicode case tables and can change the length of a string.
  It is not defined here: the functions below take it as an argument \<open>upper\<close>, of which
  nothing is assumed.
\<close>

definition startswith :: "string \<Rightarrow> string \<Rightarrow> bool" where
  "startswith s p = (take (length p) s = p)"

definition endswith :: "string \<Rightarrow> string \<Rightarrow> bool" where
  "endswith s p = (length p \<le> length s \<and> drop (length s - length p) s = p)"

text \<open>\<^verbatim>\<open>xs[:n]\<close>: a negative bound counts from the end of the list.\<close>

definition py_take :: "int \<Rightarrow> 'a list \<Rightarrow> 'a list" where
  "py_take n xs = (if 0 \<le> n then take (nat n) xs else take (length xs - nat (- n)) xs)"

text \<open>The truth value of an optional string: \<^verbatim>\<open>None\<close> and \<^verbatim>\<open>''\<close> are false.\<close>

fun truthy :: "string option \<Rightarrow> bool" where
  "truthy None = False"
| "truthy (Some s) = (s \<noteq> [])"

section \<open>Symbol Resolver: \<^verbatim>\<open>find_valid_symbol\<close>\<close>

text \<open>
  \<^verbatim>\<open>valid_symbols\<close> is a Python set. The model takes it as the list of its elements in
  the order in which the set iterates, so membership is \<open>\<in> set\<close> and the prefix scan
  (\<^verbatim>\<open>for symbol in valid_symbols\<close>) follows the list. Every theorem holds for every order.
\<close>

text \<open>The loop \<^verbatim>\<open>for variant in variations\<close>: the first variant that is not \<^verbatim>\<open>None\<close>, not
  empty and a member of the registry is returned.\<close>

fun test_variations :: "string option list \<Rightarrow> string list \<Rightarrow> string option" where
  "test_variations [] valid_symbols = None"
| "test_variations (variant # variations) valid_symbols =
     (if truthy variant \<and> the variant \<in> set valid_symbols then variant
      else test_variations variations valid_symbols)"

definition find_valid_symbol ::
  "(string \<Rightarrow> string) \<Rightarrow> string \<Rightarrow> string list \<Rightarrow> string option" where
  "find_valid_symbol upper base_symbol valid_symbols =
     (let exact_match = base_symbol @ ''USDT'' in
      if exact_match \<in> set valid_symbols then Some exact_match
      else
        let variations =
              [Some (upper base_symbol @ ''USDT''),
               (if base_symbol = ''HYPE'' then Some (''HYPER'' @ ''USDT'') else None)]
              @ map Some
                  (filter (\<lambda>symbol. startswith symbol base_symbol \<and> endswith symbol ''USDT'')
                     valid_symbols)
        in test_variations variations valid_symbols)"

section \<open>Ranked Candidate Selector: \<^verbatim>\<open>get_top10_symbols\<close>\<close>

definition stablecoins :: "string list" where
  "stablecoins = [''USDT'', ''USDC'', ''BUSD'', ''TUSD'', ''DAI'', ''FDUSD'', ''USDE'']"

definition excluded :: "string list" where
  "excluded = [''WETH'', ''WBTC'', ''STETH'']"

definition fallback_bases :: "string list" where
  "fallback_bases =
     [''BTC'', ''ETH'', ''BNB'', ''XRP'', ''SOL'', ''ADA'', ''DOGE'', ''AVAX'',
      ''DOT'', ''LINK'', ''MATIC'', ''LTC'', ''UNI'', ''ATOM'', ''XLM'',
      ''FIL'', ''ETC'', ''AAVE'', ''ALGO'', ''VET'', ''TRX'', ''SUI'']"

text \<open>The answer of the ranking provider: the HTTP status and, in rank order, the
  \<^verbatim>\<open>'symbol'\<close> field of every item of \<^verbatim>\<open>response.json()['data']\<close>.\<close>

record cmc_response =
  cmc_status :: int
  cmc_symbols :: "string list"

text \<open>The loop \<^verbatim>\<open>for item in data\<close> of the primary path, with \<^verbatim>\<open>valid_symbols\<close> as the
  accumulator.\<close>

fun cmc_loop ::
  "(string \<Rightarrow> string) \<Rightarrow> string list \<Rightarrow> string list \<Rightarrow> int \<Rightarrow> string list \<Rightarrow> string list"
  where
  "cmc_loop upper [] valid_binance_symbols target_count valid_symbols = valid_symbols"
| "cmc_loop upper (base_symbol # items) valid_binance_symbols target_count valid_symbols =
     (if int (length valid_symbols) \<ge> target_count then valid_symbols
      else if base_symbol \<in> set stablecoins \<or> base_symbol \<in> set excluded
      then cmc_loop upper items valid_binance_symbols target_count valid_symbols
      else
        let valid_pair = find_valid_symbol upper base_symbol valid_binance_symbols in
        if truthy valid_pair
        then cmc_loop upper items valid_binance_symbols target_count (valid_symbols @ [the valid_pair])
        else cmc_loop upper items valid_binance_symbols target_count valid_symbols)"

text \<open>The loop \<^verbatim>\<open>for base in fallback_bases\<close>.\<close>

fun fallback_loop ::
  "(string \<Rightarrow> string) \<Rightarrow> string list \<Rightarrow> string list \<Rightarrow> int \<Rightarrow> string list \<Rightarrow> string list"
  where
  "fallback_loop upper [] valid_binance_symbols target_count valid_symbols = valid_symbols"
| "fallback_loop upper (base # bases) valid_binance_symbols target_count valid_symbols =
     (if int (length valid_symbols) \<ge> target_count then valid_symbols
      else if valid_binance_symbols \<noteq> []
      then
        let valid_pair = find_valid_symbol upper base valid_binance_symbols in
        if truthy valid_pair
        then fallback_loop upper bases valid_binance_symbols target_count
               (valid_symbols @ [the valid_pair])
        else fallback_loop upper bases valid_binance_symbols target_count valid_symbols
      else fallback_loop upper bases valid_binance_symbols target_count
             (valid_symbols @ [base @ ''USDT'']))"

text \<open>\<^verbatim>\<open>if api_key is None: api_key = os.getenv('COINMARKETCAP_API_KEY')\<close>, the first
  statement of the selector and of both aggregator entry points.\<close>

definition resolve_api_key :: "string option \<Rightarrow> string option \<Rightarrow> string option" where
  "resolve_api_key getenv_key api_key = (case api_key of None \<Rightarrow> getenv_key | Some k \<Rightarrow> Some k)"

text \<open>
  The selector proper. Its surroundings are arguments: \<open>getenv_key\<close> is the value of the
  environment variable \<^verbatim>\<open>COINMARKETCAP_API_KEY\<close>, \<open>valid_binance_symbols\<close> is what
  \<^verbatim>\<open>get_all_binance_symbols()\<close> returned (empty when discovery failed), and \<open>cmc\<close> is the
  ranking provider, asked with the key and the \<^verbatim>\<open>limit\<close> parameter \<^verbatim>\<open>max_fetch + 15\<close>.
\<close>

definition get_top10_symbols ::
  "(string \<Rightarrow> string) \<Rightarrow> string option \<Rightarrow> string list \<Rightarrow> (string \<Rightarrow> int \<Rightarrow> cmc_response) \<Rightarrow>
   string option \<Rightarrow> int \<Rightarrow> int \<Rightarrow> string list" where
  "get_top10_symbols upper getenv_key valid_binance_symbols cmc api_key target_count max_fetch =
     (let api_key = resolve_api_key getenv_key api_key;
          fallback = (\<lambda>valid_symbols.
             py_take target_count
               (fallback_loop upper fallback_bases valid_binance_symbols target_count
                  valid_symbols))
      in
      if truthy api_key \<and> valid_binance_symbols \<noteq> [] then
        let response = cmc (the api_key) (max_fetch + 15) in
        if cmc_status response = 200 then
          let valid_symbols =
                cmc_loop upper (cmc_symbols response) valid_binance_symbols target_count []
          in
          if int (length valid_symbols) \<ge> target_count
          then py_take target_count valid_symbols
          else fallback valid_symbols
        else fallback []
      else fallback [])"

text \<open>Notions used to state what the selector returns: the ranked codes that pass the
  category filter; the pairs the resolver finds for a list of codes, in order; whether
  the ranked list is used (there is a key, a registry and an answer of status 200), and
  the codes it then lists.\<close>

definition admitted :: "string list \<Rightarrow> string list" where
  "admitted items = filter (\<lambda>b. b \<notin> set stablecoins \<and> b \<notin> set excluded) items"

definition resolutions :: "(string \<Rightarrow> string) \<Rightarrow> string list \<Rightarrow> string list \<Rightarrow> string list" where
  "resolutions upper valid_binance_symbols bases =
     map the (filter truthy (map (\<lambda>b. find_valid_symbol upper b valid_binance_symbols) bases))"

definition ranked_codes ::
  "string option \<Rightarrow> (string \<Rightarrow> int \<Rightarrow> cmc_response) \<Rightarrow> string option \<Rightarrow> int \<Rightarrow> string list" where
  "ranked_codes getenv_key cmc api_key max_fetch =
     cmc_symbols (cmc (the (resolve_api_key getenv_key api_key)) (max_fetch + 15))"

definition ranking_used ::
  "string option \<Rightarrow> string list \<Rightarrow> (string \<Rightarrow> int \<Rightarrow> cmc_response) \<Rightarrow> string option \<Rightarrow> int \<Rightarrow> bool"
  where
  "ranking_used getenv_key valid_binance_symbols cmc api_key max_fetch =
     (truthy (resolve_api_key getenv_key api_key) \<and> valid_binance_symbols \<noteq> [] \<and>
      cmc_status (cmc (the (resolve_api_key getenv_key api_key)) (max_fetch + 15)) = 200)"

text \<open>A ranking provider that answers every request with status 200 and the given codes.\<close>

definition ranking_of :: "string list \<Rightarrow> string \<Rightarrow> int \<Rightarrow> cmc_response" where
  "ranking_of codes key limit = \<lparr>cmc_status = 200, cmc_symbols = codes\<rparr>"

section \<open>Series Fetcher: \<^verbatim>\<open>get_binance_vision_data\<close> and \<^verbatim>\<open>get_binance_klines\<close>\<close>

text \<open>
  A request is identified by the fields the program interpolates into its URL: the
  archive file of a symbol, timeframe and date, or the live query of a symbol, interval
  and limit. A response carries the status code and a payload. A series is what both
  fetchers return as \<^verbatim>\<open>df[['close']]\<close>: the rows (timestamp in milliseconds, close) in the
  order of the payload. The close is a float after \<^verbatim>\<open>astype(float)\<close>: a number, or NaN,
  which is \<open>None\<close> here.

  The world the program runs in is a record of functions: the two backends behind
  \<open>http_get\<close>, the decoding of a payload into rows (\<^verbatim>\<open>pd.read_csv\<close> for the archive,
  \<^verbatim>\<open>pd.DataFrame(response.json())\<close> for the live query, each followed by the selection of
  the timestamp and close columns), the clock (\<open>days_ago n\<close> is
  \<^verbatim>\<open>(datetime.now() - timedelta(days=n)).strftime('%Y-%m-%d')\<close>), the calendar
  (\<open>date_range\<close> is \<^verbatim>\<open>pd.date_range(start, end, freq='D')\<close> printed as dates), the
  environment variable with the API key, \<^verbatim>\<open>str.upper\<close>, the exchange registry and the
  ranking provider.
  The model covers the runs in which every request is answered and every payload of
  status 200 decodes; a transport failure or a malformed payload raises inside the
  library call and is outside the model. A backend is a
  function of the request: asked twice for the same thing during one run, it gives the
  same answer.
\<close>

datatype request =
    VisionArchive string string string
  | Klines string string int

record 'p response =
  status_code :: int
  content :: 'p

type_synonym 'v series = "(int \<times> 'v option) list"

record ('p, 'v) world =
  http_get :: "request \<Rightarrow> 'p response"
  read_csv :: "'p \<Rightarrow> 'v series"
  read_json :: "'p \<Rightarrow> 'v series"
  days_ago :: "nat \<Rightarrow> string"
  date_range :: "string \<Rightarrow> string \<Rightarrow> string list"
  getenv_key :: "string option"
  str_upper :: "string \<Rightarrow> string"
  binance_symbols :: "string list"
  cmc_listings :: "string \<Rightarrow> int \<Rightarrow> cmc_response"

text \<open>The request \<^verbatim>\<open>get_binance_vision_data\<close> issues: the date defaults to yesterday.\<close>

definition vision_request :: "('p, 'v) world \<Rightarrow> string \<Rightarrow> string option \<Rightarrow> string \<Rightarrow> request" where
  "vision_request w symbol date timeframe =
     (let date = (case date of None \<Rightarrow> days_ago w 1 | Some d \<Rightarrow> d)
      in VisionArchive symbol timeframe date)"

definition get_binance_vision_data ::
  "('p, 'v) world \<Rightarrow> string \<Rightarrow> string option \<Rightarrow> string \<Rightarrow> 'v series option" where
  "get_binance_vision_data w symbol date timeframe =
     (let response = http_get w (vision_request w symbol date timeframe) in
      if status_code response \<noteq> 200 then None
      else Some (read_csv w (content response)))"

definition get_binance_klines ::
  "('p, 'v) world \<Rightarrow> string \<Rightarrow> string \<Rightarrow> int \<Rightarrow> 'v series option" where
  "get_binance_klines w symbol interval limit =
     (let response = http_get w (Klines symbol interval limit) in
      if status_code response \<noteq> 200 then None
      else Some (read_json w (content response)))"

section \<open>Aggregator: the merge of the fetched series\<close>

text \<open>
  The errors the aggregator can end in: the \<^verbatim>\<open>ValueError\<close> it raises itself when nothing
  was fetched (the spec's NoDataError), the \<^verbatim>\<open>IndexError\<close> of \<^verbatim>\<open>index[0]\<close> on a table
  without rows, and the two errors of \<^verbatim>\<open>pd.concat\<close>: no objects to concatenate, and a
  series with repeated timestamps that would have to be aligned.
\<close>

datatype error = NoDataError | IndexError | InvalidIndexError | NoObjectsError

text \<open>A table: the column names and the rows, each a timestamp and one cell per column;
  \<open>None\<close> is a missing cell (NaN), whether the close was NaN or the series has no row at
  the timestamp.\<close>

record 'v frame =
  columns :: "string list"
  rows :: "(int \<times> 'v option list) list"

text \<open>
  \<^verbatim>\<open>Index.union\<close> of two timestamp indexes: the first when the second is empty or equal
  to it, the second when the first is empty, and otherwise the sorted list that holds
  every timestamp as often as the index that repeats it most.
\<close>

definition index_union :: "int list \<Rightarrow> int list \<Rightarrow> int list" where
  "index_union a b =
     (if b = [] \<or> a = b then a
      else if a = [] then b
      else sort (a @ foldl (\<lambda>rest t. remove1 t rest) b a))"

text \<open>The row labels of \<^verbatim>\<open>pd.concat(frames, axis=1)\<close>: the union of the indexes, taken from
  left to right.\<close>

definition union_indexes :: "int list list \<Rightarrow> int list" where
  "union_indexes indexes = foldl index_union (hd indexes) (tl indexes)"

text \<open>
  The column a frame contributes under the new row labels. A frame that already has
  these labels is taken as it is. Any other frame is looked up label by label, a label
  it does not have leaving a missing cell; this lookup is refused for a frame that
  repeats a timestamp.
\<close>

definition close_at :: "'v series \<Rightarrow> int \<Rightarrow> 'v option" where
  "close_at s t = (case map_of s t of None \<Rightarrow> None | Some close \<Rightarrow> close)"

definition reindex :: "int list \<Rightarrow> 'v series \<Rightarrow> error + 'v option list" where
  "reindex new_labels s =
     (if map fst s = new_labels then Inr (map snd s)
      else if \<not> distinct (map fst s) then Inl InvalidIndexError
      else Inr (map (close_at s) new_labels))"

text \<open>The first error of a list of results, or all the values.\<close>

fun collect :: "(error + 'a) list \<Rightarrow> error + 'a list" where
  "collect [] = Inr []"
| "collect (Inl e # rs) = Inl e"
| "collect (Inr x # rs) = (case collect rs of Inl e \<Rightarrow> Inl e | Inr xs \<Rightarrow> Inr (x # xs))"

text \<open>\<^verbatim>\<open>pd.concat(frames, axis=1)\<close> on one-column frames indexed by timestamp.\<close>

definition concat_axis1 :: "(string \<times> 'v series) list \<Rightarrow> error + 'v frame" where
  "concat_axis1 named =
     (if named = [] then Inl NoObjectsError
      else
        let new_labels = union_indexes (map (\<lambda>(name, s). map fst s) named) in
        case collect (map (\<lambda>(name, s). reindex new_labels s) named) of
          Inl e \<Rightarrow> Inl e
        | Inr cols \<Rightarrow>
            Inr \<lparr>columns = map fst named,
                 rows = map (\<lambda>i. (new_labels ! i, map (\<lambda>col. col ! i) cols))
                          [0 ..< length new_labels]\<rparr>)"

text \<open>\<^verbatim>\<open>df.dropna()\<close>: the rows without a missing cell.\<close>

definition dropna :: "'v frame \<Rightarrow> 'v frame" where
  "dropna df = df\<lparr>rows := filter (\<lambda>(t, cells). list_all (\<lambda>c. c \<noteq> None) cells) (rows df)\<rparr>"

text \<open>The post-fetch merge of both modes: \<^verbatim>\<open>pd.concat(..., axis=1)\<close>, then \<^verbatim>\<open>dropna()\<close>.\<close>

definition merge_series :: "(string \<times> 'v series) list \<Rightarrow> error + 'v frame" where
  "merge_series named =
     (case concat_axis1 named of Inl e \<Rightarrow> Inl e | Inr combined_df \<Rightarrow> Inr (dropna combined_df))"

text \<open>The report printed before the table is returned reads \<^verbatim>\<open>index[0]\<close> and
  \<^verbatim>\<open>index[-1]\<close>, which raise on a table without rows.\<close>

definition report_date_range :: "'v frame \<Rightarrow> error + 'v frame" where
  "report_date_range df = (if rows df = [] then Inl IndexError else Inr df)"

section \<open>Aggregator, rolling-window mode: \<^verbatim>\<open>get_multiple_cryptos_data\<close>\<close>

record 'v rolling_state =
  all_data :: "(string \<times> 'v series) list"
  successful_symbols :: "string list"
  failed_symbols :: "string list"

text \<open>\<^verbatim>\<open>limit = min(days_back * 24, 1000) if timeframe == '1h' else days_back\<close>, written
  twice in the program with the same text.\<close>

definition klines_limit :: "int \<Rightarrow> string \<Rightarrow> int" where
  "klines_limit days_back timeframe =
     (if timeframe = ''1h'' then min (days_back * 24) 1000 else days_back)"

text \<open>The body of the loop up to the test of \<^verbatim>\<open>data\<close>: the fetch the source mode asks for.\<close>

definition fetch_by_source ::
  "('p, 'v) world \<Rightarrow> string \<Rightarrow> int \<Rightarrow> string \<Rightarrow> string \<Rightarrow> 'v series option" where
  "fetch_by_source w source days_back timeframe symbol =
     (if source = ''auto'' then
        (let data = get_binance_vision_data w symbol None timeframe in
         if data = None then
           (let limit = klines_limit days_back timeframe
            in get_binance_klines w symbol timeframe limit)
         else data)
      else if source = ''vision'' then get_binance_vision_data w symbol None timeframe
      else if source = ''api'' then
        (let limit = klines_limit days_back timeframe
         in get_binance_klines w symbol timeframe limit)
      else None)"

fun rolling_loop ::
  "('p, 'v) world \<Rightarrow> string \<Rightarrow> int \<Rightarrow> string \<Rightarrow> string list \<Rightarrow> 'v rolling_state \<Rightarrow> 'v rolling_state"
  where
  "rolling_loop w source days_back timeframe [] st = st"
| "rolling_loop w source days_back timeframe (symbol # symbols) st =
     (let data = fetch_by_source w source days_back timeframe symbol in
      if data \<noteq> None \<and> length (the data) > 0
      then rolling_loop w source days_back timeframe symbols
             (st\<lparr>all_data := all_data st @ [(symbol, the data)],
                 successful_symbols := successful_symbols st @ [symbol]\<rparr>)
      else rolling_loop w source days_back timeframe symbols
             (st\<lparr>failed_symbols := failed_symbols st @ [symbol]\<rparr>))"

definition select_symbols :: "('p, 'v) world \<Rightarrow> string list option \<Rightarrow> string option \<Rightarrow> int \<Rightarrow> string list" where
  "select_symbols w symbols api_key target_count =
     (case symbols of
        None \<Rightarrow> get_top10_symbols (str_upper w) (getenv_key w) (binance_symbols w)
                  (cmc_listings w) api_key target_count (target_count + 10)
      | Some given \<Rightarrow> given)"

text \<open>The test \<^verbatim>\<open>data is not None and len(data) > 0\<close> for a symbol.\<close>

definition fetched :: "('p, 'v) world \<Rightarrow> string \<Rightarrow> int \<Rightarrow> string \<Rightarrow> string \<Rightarrow> bool" where
  "fetched w source days_back timeframe symbol =
     (let data = fetch_by_source w source days_back timeframe symbol
      in data \<noteq> None \<and> length (the data) > 0)"

text \<open>The symbol list and the loop of \<^verbatim>\<open>get_multiple_cryptos_data\<close>, up to the test of
  \<^verbatim>\<open>all_data\<close>.\<close>

definition rolling_fetch ::
  "('p, 'v) world \<Rightarrow> string list option \<Rightarrow> string \<Rightarrow> int \<Rightarrow> string \<Rightarrow> string option \<Rightarrow> int \<Rightarrow>
   'v rolling_state" where
  "rolling_fetch w symbols source days_back timeframe api_key target_count =
     (let api_key = resolve_api_key (getenv_key w) api_key;
          symbols = select_symbols w symbols api_key target_count
      in rolling_loop w source days_back timeframe symbols
           \<lparr>all_data = [], successful_symbols = [], failed_symbols = []\<rparr>)"

definition get_multiple_cryptos_data ::
  "('p, 'v) world \<Rightarrow> string list option \<Rightarrow> string \<Rightarrow> int \<Rightarrow> string \<Rightarrow> string option \<Rightarrow> int \<Rightarrow>
   error + 'v frame" where
  "get_multiple_cryptos_data w symbols source days_back timeframe api_key target_count =
     (let st = rolling_fetch w symbols source days_back timeframe api_key target_count
      in
      if all_data st = [] then Inl NoDataError
      else
        case merge_series (all_data st) of
          Inl e \<Rightarrow> Inl e
        | Inr combined_df \<Rightarrow> report_date_range combined_df)"

section \<open>Aggregator, multi-day mode: \<^verbatim>\<open>get_crypto_data_multi_day\<close>\<close>

text \<open>
  The state of the loops carries, next to the program's variables, the list of the
  archive requests issued so far, in order. The program does not keep this list: it is
  the observable trace of its calls of \<^verbatim>\<open>get_binance_vision_data\<close>.
\<close>

record 'v day_state =
  symbol_data_list :: "'v series list"
  successful_days :: nat
  day_requests :: "request list"

text \<open>The loop \<^verbatim>\<open>for date in dates\<close> for one symbol.\<close>

fun day_loop :: "('p, 'v) world \<Rightarrow> string \<Rightarrow> string list \<Rightarrow> 'v day_state \<Rightarrow> 'v day_state" where
  "day_loop w symbol [] st = st"
| "day_loop w symbol (date # dates) st =
     (let data = get_binance_vision_data w symbol (Some date) ''1h'';
          st = st\<lparr>day_requests := day_requests st @ [vision_request w symbol (Some date) ''1h'']\<rparr>
      in
      if data \<noteq> None
      then day_loop w symbol dates
             (st\<lparr>symbol_data_list := symbol_data_list st @ [the data],
                 successful_days := successful_days st + 1\<rparr>)
      else day_loop w symbol dates st)"

text \<open>\<^verbatim>\<open>all_symbol_data[symbol] = symbol_combined\<close> on a dictionary that keeps insertion
  order: a known key keeps its place and takes the new value.\<close>

fun dict_set :: "('k \<times> 'a) list \<Rightarrow> 'k \<Rightarrow> 'a \<Rightarrow> ('k \<times> 'a) list" where
  "dict_set [] k v = [(k, v)]"
| "dict_set ((k', v') # kvs) k v = (if k' = k then (k, v) # kvs else (k', v') # dict_set kvs k v)"

record 'v multi_day_state =
  all_symbol_data :: "(string \<times> 'v series) list"
  successful_count :: int
  requests :: "request list"

text \<open>The loop \<^verbatim>\<open>for symbol in symbols\<close>; \<^verbatim>\<open>pd.concat(symbol_data_list)\<close> appends the rows
  of the days in date order.\<close>

fun multi_day_loop ::
  "('p, 'v) world \<Rightarrow> string list \<Rightarrow> int \<Rightarrow> string list \<Rightarrow> 'v multi_day_state \<Rightarrow> 'v multi_day_state"
  where
  "multi_day_loop w dates target_count [] st = st"
| "multi_day_loop w dates target_count (symbol # symbols) st =
     (if successful_count st \<ge> target_count then st
      else
        let ds = day_loop w symbol dates
                   \<lparr>symbol_data_list = [], successful_days = 0, day_requests = requests st\<rparr>
        in
        if symbol_data_list ds \<noteq> []
        then
          let symbol_combined = concat (symbol_data_list ds) in
          multi_day_loop w dates target_count symbols
            \<lparr>all_symbol_data = dict_set (all_symbol_data st) symbol symbol_combined,
             successful_count = successful_count st + 1,
             requests = day_requests ds\<rparr>
        else
          multi_day_loop w dates target_count symbols (st\<lparr>requests := day_requests ds\<rparr>))"

text \<open>The parameters of \<^verbatim>\<open>get_crypto_data_multi_day\<close> as its \<^verbatim>\<open>def\<close> line names them
  (lines 302 and 303).\<close>

definition get_crypto_data_multi_day_parameters :: "string list" where
  "get_crypto_data_multi_day_parameters =
     [''symbols'', ''start_date'', ''end_date'', ''api_key'', ''target_count'']"

text \<open>The dates of the range: the start defaults to seven days ago, the end to
  yesterday.\<close>

definition multi_day_dates :: "('p, 'v) world \<Rightarrow> string option \<Rightarrow> string option \<Rightarrow> string list" where
  "multi_day_dates w start_date end_date =
     (let start_date = (case start_date of None \<Rightarrow> days_ago w 7 | Some d \<Rightarrow> d);
          end_date = (case end_date of None \<Rightarrow> days_ago w 1 | Some d \<Rightarrow> d)
      in date_range w start_date end_date)"

text \<open>The symbol list, the dates and the loop of \<^verbatim>\<open>get_crypto_data_multi_day\<close>, up to the
  test of \<^verbatim>\<open>all_symbol_data\<close>.\<close>

definition multi_day_fetch ::
  "('p, 'v) world \<Rightarrow> string list option \<Rightarrow> string option \<Rightarrow> string option \<Rightarrow> string option \<Rightarrow> int \<Rightarrow>
   'v multi_day_state" where
  "multi_day_fetch w symbols start_date end_date api_key target_count =
     (let api_key = resolve_api_key (getenv_key w) api_key;
          symbols = select_symbols w symbols api_key target_count;
          dates = multi_day_dates w start_date end_date
      in multi_day_loop w dates target_count symbols
           \<lparr>all_symbol_data = [], successful_count = 0, requests = []\<rparr>)"

definition get_crypto_data_multi_day ::
  "('p, 'v) world \<Rightarrow> string list option \<Rightarrow> string option \<Rightarrow> string option \<Rightarrow> string option \<Rightarrow> int \<Rightarrow>
   error + 'v frame" where
  "get_crypto_data_multi_day w symbols start_date end_date api_key target_count =
     (let st = multi_day_fetch w symbols start_date end_date api_key target_count in
      if all_symbol_data st = [] then Inl NoDataError
      else
        case merge_series (all_symbol_data st) of
          Inl e \<Rightarrow> Inl e
        | Inr final_df \<Rightarrow> report_date_range final_df)"

text \<open>Whether a symbol has data on at least one of the dates.\<close>

definition has_data :: "('p, 'v) world \<Rightarrow> string list \<Rightarrow> string \<Rightarrow> bool" where
  "has_data w dates symbol =
     list_ex (\<lambda>date. get_binance_vision_data w symbol (Some date) ''1h'' \<noteq> None) dates"

section \<open>A small world for examples\<close>

text \<open>\<^verbatim>\<open>str.upper()\<close> on ASCII text, which is all the examples contain: the letters a to z
  move to A to Z, every other character stays.\<close>

definition ascii_upper_char :: "char \<Rightarrow> char" where
  "ascii_upper_char c =
     (let n = (of_char c :: nat) in if 97 \<le> n \<and> n \<le> 122 then char_of (n - 32) else c)"

definition ascii_upper :: "string \<Rightarrow> string" where
  "ascii_upper s = map ascii_upper_char s"

text \<open>
  Payloads are the decoded rows themselves. The archive holds \<^verbatim>\<open>BTCUSDT\<close> and \<^verbatim>\<open>ETHUSDT\<close>
  for 2024-01-01 and 2024-01-03, \<^verbatim>\<open>SOLUSDT\<close> for 2024-01-02 (hourly files with one row each,
  to keep the examples short), and nothing else; 2024-01-03 is yesterday. The live API
  knows \<^verbatim>\<open>OLDUSDT\<close>, whose last candle is of 2023-12-01, \<^verbatim>\<open>NEWUSDT\<close>, listed on 2024-01-04,
  \<^verbatim>\<open>ETHUSDT\<close>, and answers with no candle at all for \<^verbatim>\<open>HALTUSDT\<close>.
\<close>

definition example_http :: "request \<Rightarrow> (int \<times> int option) list response" where
  "example_http r =
     (case r of
        VisionArchive symbol timeframe date \<Rightarrow>
          if (symbol = ''BTCUSDT'' \<or> symbol = ''ETHUSDT'') \<and> date = ''2024-01-01''
          then \<lparr>status_code = 200, content = [(1704067200000, Some 42000)]\<rparr>
          else if (symbol = ''BTCUSDT'' \<or> symbol = ''ETHUSDT'') \<and> date = ''2024-01-03''
          then \<lparr>status_code = 200, content = [(1704240000000, Some 43000)]\<rparr>
          else if symbol = ''SOLUSDT'' \<and> date = ''2024-01-02''
          then \<lparr>status_code = 200, content = [(1704153600000, Some 100)]\<rparr>
          else \<lparr>status_code = 404, content = []\<rparr>
      | Klines symbol interval limit \<Rightarrow>
          if symbol = ''OLDUSDT'' then \<lparr>status_code = 200, content = [(1701388800000, Some 7)]\<rparr>
          else if symbol = ''NEWUSDT'' then \<lparr>status_code = 200, content = [(1704326400000, Some 5)]\<rparr>
          else if symbol = ''ETHUSDT'' then \<lparr>status_code = 200, content = [(1704326400000, Some 2300)]\<rparr>
          else if symbol = ''HALTUSDT'' then \<lparr>status_code = 200, content = []\<rparr>
          else \<lparr>status_code = 400, content = []\<rparr>)"

text \<open>Two series that share one timestamp out of three, and two series on the same two
  timestamps of which the first has no close at the first timestamp.\<close>

definition example_series :: "(string \<times> int series) list" where
  "example_series =
     [(''BTCUSDT'', [(1704067200000, Some 42000), (1704240000000, Some 43000)]),
      (''NEWUSDT'', [(1704240000000, Some 5), (1704326400000, Some 6)])]"

definition example_series_nan :: "(string \<times> int series) list" where
  "example_series_nan =
     [(''BTCUSDT'', [(1704067200000, None), (1704070800000, Some 42100)]),
      (''ETHUSDT'', [(1704067200000, Some 2300), (1704070800000, Some 2310)])]"

definition example_date_range :: "string \<Rightarrow> string \<Rightarrow> string list" where
  "example_date_range start_date end_date =
     (if start_date = ''2024-01-01'' \<and> end_date = ''2024-01-03''
      then [''2024-01-01'', ''2024-01-02'', ''2024-01-03'']
      else if start_date = end_date then [start_date] else [])"

definition example_days_ago :: "nat \<Rightarrow> string" where
  "example_days_ago n = (if n = 1 then ''2024-01-03'' else ''2023-12-28'')"

definition example_world :: "((int \<times> int option) list, int) world" where
  "example_world =
     \<lparr>http_get = example_http, read_csv = id, read_json = id,
      days_ago = example_days_ago, date_range = example_date_range,
      getenv_key = None, str_upper = ascii_upper, binance_symbols = [],
      cmc_listings = ranking_of []\<rparr>"

section \<open>The selector's loops in closed form\<close>

text \<open>Each loop appends resolved pairs while there is room below the target, so its
  result is the accumulator followed by a prefix of the pairs the candidates resolve to.\<close>

lemma resolutions_Nil [simp]: "resolutions upper reg [] = []"
  by (simp add: resolutions_def)

lemma resolutions_Cons:
  "resolutions upper reg (b # bs) =
     (if truthy (find_valid_symbol upper b reg) then the (find_valid_symbol upper b reg) # resolutions upper reg bs
      else resolutions upper reg bs)"
  by (simp add: resolutions_def)

lemma resolutions_append: "resolutions upper reg (xs @ ys) = resolutions upper reg xs @ resolutions upper reg ys"
  by (simp add: resolutions_def)

lemma take_room_Cons:
  "int (length vs) < tc \<Longrightarrow>
   (vs @ [p]) @ take (nat (tc - int (length (vs @ [p])))) ps
     = vs @ take (nat (tc - int (length vs))) (p # ps)"
proof -
  assume "int (length vs) < tc"
  then obtain k where k: "nat (tc - int (length vs)) = Suc k"
    by (cases "nat (tc - int (length vs))") auto
  then have "nat (tc - int (length (vs @ [p]))) = k" by simp
  with k show ?thesis by simp
qed

lemma cmc_loop_eq:
  "cmc_loop upper items reg tc vs = vs @ take (nat (tc - int (length vs))) (resolutions upper reg (admitted items))"
proof (induction items arbitrary: vs)
  case Nil
  then show ?case by (simp add: admitted_def)
next
  case (Cons b items)
  show ?case
  proof (cases "int (length vs) \<ge> tc")
    case True
    then show ?thesis by simp
  next
    case False
    then have lt: "int (length vs) < tc" by simp
    show ?thesis
    proof (cases "b \<in> set stablecoins \<or> b \<in> set excluded")
      case True
      then have "admitted (b # items) = admitted items" by (auto simp: admitted_def)
      with True False Cons.IH [of vs] show ?thesis by simp
    next
      case nex: False
      then have adm: "admitted (b # items) = b # admitted items" by (auto simp: admitted_def)
      show ?thesis
      proof (cases "truthy (find_valid_symbol upper b reg)")
        case True
        with nex False have "cmc_loop upper (b # items) reg tc vs
            = cmc_loop upper items reg tc (vs @ [the (find_valid_symbol upper b reg)])" by (simp add: Let_def)
        also have "\<dots> = (vs @ [the (find_valid_symbol upper b reg)])
            @ take (nat (tc - int (length (vs @ [the (find_valid_symbol upper b reg)]))))
                (resolutions upper reg (admitted items))" by (rule Cons.IH)
        also have "\<dots> = vs @ take (nat (tc - int (length vs)))
             (the (find_valid_symbol upper b reg) # resolutions upper reg (admitted items))"
          by (rule take_room_Cons [OF lt])
        finally show ?thesis using True by (simp add: adm resolutions_Cons)
      next
        case f: False
        with nex False Cons.IH [of vs] show ?thesis by (simp add: adm resolutions_Cons Let_def)
      qed
    qed
  qed
qed

lemma fallback_loop_eq:
  "reg \<noteq> [] \<Longrightarrow>
   fallback_loop upper bases reg tc vs = vs @ take (nat (tc - int (length vs))) (resolutions upper reg bases)"
proof (induction bases arbitrary: vs)
  case Nil
  then show ?case by simp
next
  case (Cons b bases)
  show ?case
  proof (cases "int (length vs) \<ge> tc")
    case True
    then show ?thesis by simp
  next
    case False
    then have lt: "int (length vs) < tc" by simp
    show ?thesis
    proof (cases "truthy (find_valid_symbol upper b reg)")
      case True
      with False Cons.prems have "fallback_loop upper (b # bases) reg tc vs
          = fallback_loop upper bases reg tc (vs @ [the (find_valid_symbol upper b reg)])" by (simp add: Let_def)
      also have "\<dots> = (vs @ [the (find_valid_symbol upper b reg)])
          @ take (nat (tc - int (length (vs @ [the (find_valid_symbol upper b reg)]))))
              (resolutions upper reg bases)" by (rule Cons.IH [OF Cons.prems])
      also have "\<dots> = vs @ take (nat (tc - int (length vs)))
           (the (find_valid_symbol upper b reg) # resolutions upper reg bases)"
        by (rule take_room_Cons [OF lt])
      finally show ?thesis using True by (simp add: resolutions_Cons)
    next
      case f: False
      with False Cons.prems Cons.IH [of vs] show ?thesis by (simp add: resolutions_Cons Let_def)
    qed
  qed
qed

lemma fallback_loop_no_registry:
  "fallback_loop upper bases [] tc vs
     = vs @ take (nat (tc - int (length vs))) (map (\<lambda>b. b @ ''USDT'') bases)"
proof (induction bases arbitrary: vs)
  case Nil
  then show ?case by simp
next
  case (Cons b bases)
  show ?case
  proof (cases "int (length vs) \<ge> tc")
    case True
    then show ?thesis by simp
  next
    case False
    then have lt: "int (length vs) < tc" by simp
    from False have "fallback_loop upper (b # bases) [] tc vs
          = fallback_loop upper bases [] tc (vs @ [b @ ''USDT''])" by simp
    also have "\<dots> = (vs @ [b @ ''USDT''])
          @ take (nat (tc - int (length (vs @ [b @ ''USDT'']))))
              (map (\<lambda>b. b @ ''USDT'') bases)" by (rule Cons.IH)
    also have "\<dots> = vs @ take (nat (tc - int (length vs)))
           ((b @ ''USDT'') # map (\<lambda>b. b @ ''USDT'') bases)"
      by (rule take_room_Cons [OF lt])
    finally show ?thesis by simp
  qed
qed

lemma test_variations_member:
  "test_variations vs reg = Some p \<Longrightarrow> Some p \<in> set vs \<and> p \<in> set reg \<and> p \<noteq> []"
  by (induction vs) (auto split: if_splits)

lemma find_valid_symbol_registry:
  "find_valid_symbol upper b reg = Some p \<Longrightarrow> p \<in> set reg"
  by (auto simp: find_valid_symbol_def Let_def split: if_splits dest: test_variations_member)

lemma find_valid_symbol_no_registry: "find_valid_symbol upper b [] = None"
  by (simp add: find_valid_symbol_def)

section \<open>Properties of the selector\<close>

lemma set_py_take: "set (py_take n xs) \<subseteq> set xs"
  by (auto simp: py_take_def dest: in_set_takeD)

lemma distinct_py_take: "distinct xs \<Longrightarrow> distinct (py_take n xs)"
  by (simp add: py_take_def)

lemma resolutions_no_registry [simp]: "resolutions upper [] bases = []"
  by (induction bases) (simp_all add: resolutions_Cons find_valid_symbol_no_registry)

lemma in_resolutions:
  "p \<in> set (resolutions upper reg bases) \<Longrightarrow> \<exists>b \<in> set bases. find_valid_symbol upper b reg = Some p"
  by (induction bases) (auto simp: resolutions_Cons split: if_splits elim: truthy.elims)

lemma distinct_fallback_pairs: "distinct (map (\<lambda>b. b @ ''USDT'') fallback_bases)"
proof -
  have "distinct fallback_bases" by code_simp
  moreover have "inj_on (\<lambda>b. b @ ''USDT'') (set fallback_bases)" by (simp add: inj_on_def)
  ultimately show ?thesis by (simp add: distinct_map)
qed

lemma fallback_not_filtered:
  "b \<in> set fallback_bases \<Longrightarrow> b \<notin> set stablecoins \<and> b \<notin> set excluded"
proof -
  have "list_all (\<lambda>b. b \<notin> set stablecoins \<and> b \<notin> set excluded) fallback_bases" by code_simp
  then show "b \<in> set fallback_bases \<Longrightarrow> b \<notin> set stablecoins \<and> b \<notin> set excluded"
    by (simp add: list_all_iff)
qed

text \<open>How a pair the resolver returns relates to the asset code: it is the exact
  concatenation, or a registry entry reached through the upper-case variant, the HYPE
  alias or the prefix scan, and these are tried only when the exact pair is not listed.\<close>

lemma find_valid_symbol_origin:
  assumes "find_valid_symbol upper b reg = Some p"
  shows "p = b @ ''USDT''
       \<or> (p \<in> set reg \<and> b @ ''USDT'' \<notin> set reg
           \<and> (p = upper b @ ''USDT'' \<or> (b = ''HYPE'' \<and> p = ''HYPERUSDT'')
               \<or> (startswith p b \<and> endswith p ''USDT'')))"
proof (cases "b @ ''USDT'' \<in> set reg")
  case True
  with assms show ?thesis by (simp add: find_valid_symbol_def)
next
  case False
  let ?vs = "[Some (upper b @ ''USDT''), (if b = ''HYPE'' then Some (''HYPER'' @ ''USDT'') else None)]
              @ map Some (filter (\<lambda>symbol. startswith symbol b \<and> endswith symbol ''USDT'') reg)"
  from assms False have "test_variations ?vs reg = Some p"
    by (simp add: find_valid_symbol_def Let_def)
  then have mem: "Some p \<in> set ?vs \<and> p \<in> set reg \<and> p \<noteq> []"
    by (rule test_variations_member)
  then have "p = upper b @ ''USDT'' \<or> (b = ''HYPE'' \<and> p = ''HYPER'' @ ''USDT'')
      \<or> (startswith p b \<and> endswith p ''USDT'')"
    by (auto split: if_splits)
  with mem False show ?thesis by simp
qed

text \<open>The selector in closed form. When the ranked list is used and the codes that
  pass the filter resolve to at least \<open>target_count\<close> pairs, the result is the first
  \<open>target_count\<close> of these; when they resolve to fewer, all of them followed by fallback
  pairs up to the target; when the ranked list is not used, the first \<open>target_count\<close>
  fallback pairs, resolved against the registry or, without one, concatenated.\<close>

lemma py_take_short: "int (length xs) \<le> n \<Longrightarrow> py_take n xs = xs"
  by (simp add: py_take_def)

lemma py_take_negative_Nil: "py_take n [] = []"
  by (simp add: py_take_def)

lemma get_top10_symbols_closed:
  fixes upper ge reg cmc ak tc mf
  defines "R \<equiv> resolutions upper reg (admitted (ranked_codes ge cmc ak mf))"
  defines "F \<equiv> resolutions upper reg fallback_bases"
  shows "get_top10_symbols upper ge reg cmc ak tc mf =
     (if ranking_used ge reg cmc ak mf then
        (if int (length R) \<ge> tc then take (nat tc) R
         else R @ take (nat tc - length R) F)
      else if reg = [] then take (nat tc) (map (\<lambda>b. b @ ''USDT'') fallback_bases)
      else take (nat tc) F)"
proof -
  have short: "py_take tc (take (nat tc) xs) = take (nat tc) xs" for xs :: "string list"
  proof (cases "0 \<le> tc")
    case True
    then show ?thesis by (simp add: py_take_def)
  next
    case False
    then show ?thesis by (simp add: py_take_negative_Nil)
  qed
  show ?thesis
  proof (cases "ranking_used ge reg cmc ak mf")
    case False
    then have "get_top10_symbols upper ge reg cmc ak tc mf
        = py_take tc (fallback_loop upper fallback_bases reg tc [])"
      by (auto simp: get_top10_symbols_def ranking_used_def Let_def)
    with False show ?thesis
      by (cases "reg = []")
         (simp_all add: fallback_loop_no_registry fallback_loop_eq short F_def)
  next
    case True
    then have reg: "reg \<noteq> []" by (simp add: ranking_used_def)
    have loop: "cmc_loop upper (ranked_codes ge cmc ak mf) reg tc [] = take (nat tc) R"
      by (simp add: cmc_loop_eq R_def)
    show ?thesis
    proof (cases "int (length R) \<ge> tc")
      case filled: True
      then have "int (length (take (nat tc) R)) \<ge> tc" by simp
      with True have "get_top10_symbols upper ge reg cmc ak tc mf = py_take tc (take (nat tc) R)"
        by (simp add: get_top10_symbols_def ranking_used_def Let_def
            loop [unfolded ranked_codes_def])
      with True filled show ?thesis by (simp add: short)
    next
      case under: False
      then have pos: "0 < tc" and all: "take (nat tc) R = R" by simp_all
      from under have less: "\<not> int (length (take (nat tc) R)) \<ge> tc" by simp
      with True under have "get_top10_symbols upper ge reg cmc ak tc mf
          = py_take tc (fallback_loop upper fallback_bases reg tc (take (nat tc) R))"
        by (simp add: get_top10_symbols_def ranking_used_def Let_def
            loop [unfolded ranked_codes_def])
      also have "\<dots> = py_take tc (R @ take (nat (tc - int (length R))) F)"
        by (simp add: fallback_loop_eq [OF reg] all F_def)
      also have "\<dots> = R @ take (nat (tc - int (length R))) F"
        using under by (intro py_take_short) simp
      also have "nat (tc - int (length R)) = nat tc - length R"
        by simp
      finally show ?thesis using True under by simp
    qed
  qed
qed

text \<open>A fallback code that upper-casing leaves unchanged resolves to a pair that starts
  with it, and no fallback code starts with another: such codes resolve to pairwise
  different pairs.\<close>

lemma startswith_append: "startswith (b @ s) b"
  by (simp add: startswith_def)

lemma startswith_comparable:
  assumes "startswith p a" and "startswith p b" and "length a \<le> length b"
  shows "startswith b a"
proof -
  from assms(2) have "take (length a) b = take (length a) (take (length b) p)"
    by (simp add: startswith_def)
  also have "\<dots> = take (length a) p" using assms(3) by (simp add: min_def)
  also have "\<dots> = a" using assms(1) by (simp add: startswith_def)
  finally show ?thesis by (simp add: startswith_def)
qed

lemma fallback_prefix_free:
  assumes "a \<in> set fallback_bases" and "b \<in> set fallback_bases" and "startswith b a"
  shows "a = b"
proof -
  have "list_all (\<lambda>a. list_all (\<lambda>b. \<not> startswith b a \<or> a = b) fallback_bases) fallback_bases"
    by code_simp
  with assms show ?thesis by (auto simp: list_all_iff)
qed

lemma hype_not_fallback: "''HYPE'' \<notin> set fallback_bases"
  by code_simp

lemma fallback_resolution_prefix:
  assumes "b \<in> set fallback_bases" and "upper b = b"
    and "find_valid_symbol upper b reg = Some p"
  shows "startswith p b"
proof -
  from assms(1) hype_not_fallback have "b \<noteq> ''HYPE''" by blast
  with find_valid_symbol_origin [OF assms(3)] assms(2) show ?thesis
    by (auto simp: startswith_append)
qed

lemma distinct_resolved:
  assumes "distinct bs"
    and "\<And>x y. x \<in> set bs \<Longrightarrow> y \<in> set bs \<Longrightarrow> truthy (f x) \<Longrightarrow> f x = f y \<Longrightarrow> x = y"
  shows "distinct (map the (filter truthy (map f bs)))"
  using assms
proof (induction bs)
  case Nil
  show ?case by simp
next
  case (Cons b bs)
  have rest: "distinct (map the (filter truthy (map f bs)))"
    using Cons.prems by (intro Cons.IH) auto
  show ?case
  proof (cases "truthy (f b)")
    case False
    with rest show ?thesis by simp
  next
    case True
    have "the (f b) \<notin> set (map the (filter truthy (map f bs)))"
    proof
      assume "the (f b) \<in> set (map the (filter truthy (map f bs)))"
      then obtain y where y: "y \<in> set bs" "truthy (f y)" "the (f y) = the (f b)" by auto
      from True y(2,3) have "f b = f y"
        by (cases "f b"; cases "f y") simp_all
      with Cons.prems(2) [of b y] True y(1) have "b = y" by simp
      with y(1) Cons.prems(1) show False by simp
    qed
    with rest True show ?thesis by simp
  qed
qed

lemma distinct_fallback_resolutions:
  assumes "\<forall>b \<in> set fallback_bases. upper b = b"
  shows "distinct (resolutions upper reg fallback_bases)"
  unfolding resolutions_def
proof (rule distinct_resolved)
  show "distinct fallback_bases" by code_simp
next
  fix x y
  assume x: "x \<in> set fallback_bases" and y: "y \<in> set fallback_bases"
    and t: "truthy (find_valid_symbol upper x reg)"
    and e: "find_valid_symbol upper x reg = find_valid_symbol upper y reg"
  from t obtain p where p: "find_valid_symbol upper x reg = Some p"
    by (cases "find_valid_symbol upper x reg") simp_all
  from x assms p have px: "startswith p x" by (intro fallback_resolution_prefix) auto
  from y assms p e have py: "startswith p y" by (intro fallback_resolution_prefix) auto
  show "x = y"
  proof (cases "length x \<le> length y")
    case True
    with px py have "startswith y x" by (rule startswith_comparable)
    with x y show ?thesis by (rule fallback_prefix_free)
  next
    case False
    then have "length y \<le> length x" by simp
    with py px have "startswith x y" by (rule startswith_comparable)
    with y x have "y = x" by (rule fallback_prefix_free)
    then show ?thesis by simp
  qed
qed

text \<open>
  Claim C1, as amended. For every registry, ranking answer, key, target count and fetch
  bound, the list \<^verbatim>\<open>get_top10_symbols\<close> returns has at most \<open>max(target_count, 0)\<close>
  elements. The program never compares a new pair with the ones it already holds, so
  whether the list is free of duplicates depends on the pairs the codes resolve to:
  \<^item> without a registry the list never has a duplicate;
  \<^item> when the fallback list alone is used with a registry, it has none exactly when
    the first \<open>target_count\<close> fallback pairs are pairwise different, which is always so
    when upper-casing leaves the fallback codes as they are;
  \<^item> when the ranked list is used and fills the list, it has none exactly when the
    first \<open>target_count\<close> pairs of the ranked codes that pass the filter are pairwise
    different;
  \<^item> when the ranked list is used and under-fills the list, so that the fallback path
    appends to it, it has none exactly when the ranked pairs are pairwise different, the
    appended fallback pairs are pairwise different, and no pair is in both.
\<close>

theorem get_top10_symbols_length_distinct:
  fixes upper ge reg cmc ak tc mf
  defines "R \<equiv> resolutions upper reg (admitted (ranked_codes ge cmc ak mf))"
  defines "F \<equiv> resolutions upper reg fallback_bases"
  defines "out \<equiv> get_top10_symbols upper ge reg cmc ak tc mf"
  shows "length out \<le> nat tc
       \<and> (reg = [] \<longrightarrow> distinct out)
       \<and> (\<not> ranking_used ge reg cmc ak mf \<and> reg \<noteq> []
            \<longrightarrow> (distinct out \<longleftrightarrow> distinct (take (nat tc) F)))
       \<and> (\<not> ranking_used ge reg cmc ak mf \<and> (\<forall>b \<in> set fallback_bases. upper b = b)
            \<longrightarrow> distinct out)
       \<and> (ranking_used ge reg cmc ak mf \<and> int (length R) \<ge> tc
            \<longrightarrow> (distinct out \<longleftrightarrow> distinct (take (nat tc) R)))
       \<and> (ranking_used ge reg cmc ak mf \<and> int (length R) < tc
            \<longrightarrow> (distinct out \<longleftrightarrow>
                   distinct R \<and> distinct (take (nat tc - length R) F)
                   \<and> set R \<inter> set (take (nat tc - length R) F) = {}))"
proof -
  have closed: "out =
     (if ranking_used ge reg cmc ak mf then
        (if int (length R) \<ge> tc then take (nat tc) R
         else R @ take (nat tc - length R) F)
      else if reg = [] then take (nat tc) (map (\<lambda>b. b @ ''USDT'') fallback_bases)
      else take (nat tc) F)"
    unfolding out_def R_def F_def by (rule get_top10_symbols_closed)
  have synth: "distinct (take (nat tc) (map (\<lambda>b. b @ ''USDT'') fallback_bases))"
    by (rule distinct_take [OF distinct_fallback_pairs])
  have no_reg: "\<not> ranking_used ge reg cmc ak mf" if "reg = []"
    using that by (simp add: ranking_used_def)
  have len: "length out \<le> nat tc"
  proof (cases "ranking_used ge reg cmc ak mf \<and> \<not> int (length R) \<ge> tc")
    case True
    then have "out = R @ take (nat tc - length R) F" by (simp add: closed)
    moreover from True have "length R \<le> nat tc" by linarith
    ultimately show ?thesis by simp
  next
    case False
    then show ?thesis by (auto simp: closed)
  qed
  have c1: "distinct out" if "reg = []"
    using that no_reg synth by (simp add: closed)
  have c2: "distinct out \<longleftrightarrow> distinct (take (nat tc) F)"
    if "\<not> ranking_used ge reg cmc ak mf \<and> reg \<noteq> []"
    using that by (simp add: closed)
  have c3: "distinct out"
    if h: "\<not> ranking_used ge reg cmc ak mf \<and> (\<forall>b \<in> set fallback_bases. upper b = b)"
  proof (cases "reg = []")
    case True
    then show ?thesis by (rule c1)
  next
    case False
    from h have "distinct F"
      unfolding F_def by (intro distinct_fallback_resolutions) blast
    then have "distinct (take (nat tc) F)" by (rule distinct_take)
    with c2 h False show ?thesis by blast
  qed
  have c4: "distinct out \<longleftrightarrow> distinct (take (nat tc) R)"
    if "ranking_used ge reg cmc ak mf \<and> int (length R) \<ge> tc"
    using that by (simp add: closed)
  have c5: "distinct out \<longleftrightarrow>
              distinct R \<and> distinct (take (nat tc - length R) F)
              \<and> set R \<inter> set (take (nat tc - length R) F) = {}"
    if "ranking_used ge reg cmc ak mf \<and> int (length R) < tc"
    using that by (simp add: closed)
  from len c1 c2 c3 c4 c5 show ?thesis by blast
qed

text \<open>The ranking lists BTC, USDT and ETH, the registry holds both pairs and two symbols
  are asked for: the ranked list fills the list, and its first two pairs differ.\<close>

theorem get_top10_symbols_length_distinct_witness:
  "ranking_used None [''BTCUSDT'', ''ETHUSDT''] (ranking_of [''BTC'', ''USDT'', ''ETH'']) (Some ''key'') 12
   \<and> int (length (resolutions ascii_upper [''BTCUSDT'', ''ETHUSDT'']
         (admitted (ranked_codes None (ranking_of [''BTC'', ''USDT'', ''ETH'']) (Some ''key'') 12)))) \<ge> 2
   \<and> distinct (take (nat 2) (resolutions ascii_upper [''BTCUSDT'', ''ETHUSDT'']
         (admitted (ranked_codes None (ranking_of [''BTC'', ''USDT'', ''ETH'']) (Some ''key'') 12))))
   \<and> get_top10_symbols ascii_upper None [''BTCUSDT'', ''ETHUSDT'']
        (ranking_of [''BTC'', ''USDT'', ''ETH'']) (Some ''key'') 2 12 = [''BTCUSDT'', ''ETHUSDT'']
   \<and> distinct (get_top10_symbols ascii_upper None [''BTCUSDT'', ''ETHUSDT'']
        (ranking_of [''BTC'', ''USDT'', ''ETH'']) (Some ''key'') 2 12)"
proof -
  let ?reg = "[''BTCUSDT'', ''ETHUSDT'']"
  let ?cmc = "ranking_of [''BTC'', ''USDT'', ''ETH'']"
  let ?R = "resolutions ascii_upper ?reg (admitted (ranked_codes None ?cmc (Some ''key'') 12))"
  let ?out = "get_top10_symbols ascii_upper None ?reg ?cmc (Some ''key'') 2 12"
  have u: "ranking_used None ?reg ?cmc (Some ''key'') 12" by code_simp
  have l: "int (length ?R) \<ge> 2" by code_simp
  have d: "distinct (take (nat 2) ?R)" by code_simp
  have v: "?out = [''BTCUSDT'', ''ETHUSDT'']" by code_simp
  from get_top10_symbols_length_distinct
         [where upper = ascii_upper and ge = None and reg = ?reg and cmc = ?cmc
            and ak = "Some ''key''" and tc = 2 and mf = 12]
  have "ranking_used None ?reg ?cmc (Some ''key'') 12 \<and> int (length ?R) \<ge> 2
          \<longrightarrow> (distinct ?out \<longleftrightarrow> distinct (take (nat 2) ?R))"
    by (elim conjE)
  with u l d have "distinct ?out" by (simp only: simp_thms)
  with u l d v show ?thesis by (intro conjI)
qed

text \<open>
  Claim C1 as stated fails. The ranking lists BTC, USDT and ETH, the registry holds
  \<^verbatim>\<open>BTCUSDT\<close> and \<^verbatim>\<open>ETHUSDT\<close>, and three symbols are asked for: the primary path yields two
  pairs, the fallback path starts again at BTC and appends \<^verbatim>\<open>BTCUSDT\<close> a second time.
\<close>

theorem get_top10_symbols_duplicate_counterexample:
  "\<not> (int (length (get_top10_symbols ascii_upper None [''BTCUSDT'', ''ETHUSDT'']
                     (ranking_of [''BTC'', ''USDT'', ''ETH'']) (Some ''key'') 3 13)) \<le> 3
      \<and> distinct (get_top10_symbols ascii_upper None [''BTCUSDT'', ''ETHUSDT'']
                     (ranking_of [''BTC'', ''USDT'', ''ETH'']) (Some ''key'') 3 13))"
  by code_simp

lemma get_top10_symbols_duplicate_value:
  "get_top10_symbols ascii_upper None [''BTCUSDT'', ''ETHUSDT'']
     (ranking_of [''BTC'', ''USDT'', ''ETH'']) (Some ''key'') 3 13
     = [''BTCUSDT'', ''ETHUSDT'', ''BTCUSDT'']"
  by code_simp

text \<open>Where an element of the result comes from: a ranked code that passed the filter,
  when the ranked list is used, or a fallback code.\<close>

lemma in_get_top10_symbols:
  assumes "p \<in> set (get_top10_symbols upper ge reg cmc ak tc mf)"
  shows "(ranking_used ge reg cmc ak mf
            \<and> p \<in> set (resolutions upper reg (admitted (ranked_codes ge cmc ak mf))))
       \<or> (reg \<noteq> [] \<and> p \<in> set (resolutions upper reg fallback_bases))
       \<or> (reg = [] \<and> p \<in> set (map (\<lambda>b. b @ ''USDT'') fallback_bases))"
proof -
  have reg: "reg \<noteq> []" if "ranking_used ge reg cmc ak mf"
    using that by (simp add: ranking_used_def)
  from assms show ?thesis
    unfolding get_top10_symbols_closed
    using reg by (auto split: if_splits dest: in_set_takeD)
qed

lemma hyper_not_filtered: "''HYPER'' \<notin> set stablecoins \<and> ''HYPER'' \<notin> set excluded"
  by code_simp

text \<open>
  Claim C5, as amended. The category filter acts on the asset code of the candidate, not
  on the pair found for it. Every pair \<open>p\<close> in the selector's output comes from an asset
  code \<open>b\<close> such that
  \<^item> \<open>b\<close> is a ranked code that passed the filter (when the ranked list is used) or a
    fallback code, and in either case is in neither fixed set;
  \<^item> \<open>p\<close> is what \<^verbatim>\<open>find_valid_symbol\<close> returns for \<open>b\<close>, or, without a registry, \<open>b\<close>
    followed by \<^verbatim>\<open>'USDT'\<close>;
  \<^item> \<open>p\<close> is \<open>b\<close> followed by \<^verbatim>\<open>'USDT'\<close>, or a registry entry found, in the absence of
    that exact pair, as the upper-case variant of \<open>b\<close>, as the alias \<^verbatim>\<open>HYPERUSDT\<close> of HYPE,
    or by the prefix scan for \<open>b\<close>;
  \<^item> when \<open>p\<close> is the exact pair or the alias, its base is in neither fixed set.
  The base of a pair found by the upper-case variant or by the prefix scan is not
  checked against the sets.
\<close>

theorem get_top10_symbols_candidates_filtered:
  "p \<in> set (get_top10_symbols upper ge reg cmc ak tc mf) \<Longrightarrow>
   \<exists>b. ((ranking_used ge reg cmc ak mf \<and> b \<in> set (admitted (ranked_codes ge cmc ak mf)))
          \<or> b \<in> set fallback_bases)
      \<and> b \<notin> set stablecoins \<and> b \<notin> set excluded
      \<and> ((reg \<noteq> [] \<and> find_valid_symbol upper b reg = Some p) \<or> (reg = [] \<and> p = b @ ''USDT''))
      \<and> (p = b @ ''USDT''
          \<or> (p \<in> set reg \<and> b @ ''USDT'' \<notin> set reg
              \<and> (p = upper b @ ''USDT'' \<or> (b = ''HYPE'' \<and> p = ''HYPERUSDT'')
                  \<or> (startswith p b \<and> endswith p ''USDT''))))
      \<and> (p = b @ ''USDT'' \<or> (b = ''HYPE'' \<and> p = ''HYPERUSDT'')
          \<longrightarrow> (\<forall>s \<in> set stablecoins \<union> set excluded. p \<noteq> s @ ''USDT''))"
proof -
  assume "p \<in> set (get_top10_symbols upper ge reg cmc ak tc mf)"
  then obtain b where
      cand: "(ranking_used ge reg cmc ak mf \<and> b \<in> set (admitted (ranked_codes ge cmc ak mf)))
              \<or> b \<in> set fallback_bases"
      and res: "(reg \<noteq> [] \<and> find_valid_symbol upper b reg = Some p) \<or> (reg = [] \<and> p = b @ ''USDT'')"
  proof -
    assume rule: "\<And>b. (ranking_used ge reg cmc ak mf \<and> b \<in> set (admitted (ranked_codes ge cmc ak mf)))
              \<or> b \<in> set fallback_bases \<Longrightarrow>
          (reg \<noteq> [] \<and> find_valid_symbol upper b reg = Some p) \<or> (reg = [] \<and> p = b @ ''USDT'') \<Longrightarrow>
          thesis"
    assume "p \<in> set (get_top10_symbols upper ge reg cmc ak tc mf)"
    then consider
        (ranked) "ranking_used ge reg cmc ak mf"
                 "p \<in> set (resolutions upper reg (admitted (ranked_codes ge cmc ak mf)))"
      | (fallback) "reg \<noteq> []" "p \<in> set (resolutions upper reg fallback_bases)"
      | (synth) "reg = []" "p \<in> set (map (\<lambda>b. b @ ''USDT'') fallback_bases)"
      using in_get_top10_symbols by blast
    then show thesis
    proof cases
      case ranked
      from ranked(2) obtain b where "b \<in> set (admitted (ranked_codes ge cmc ak mf))"
          "find_valid_symbol upper b reg = Some p"
        using in_resolutions by blast
      moreover from ranked(1) have "reg \<noteq> []" by (simp add: ranking_used_def)
      ultimately show thesis using ranked(1) by (intro rule [of b]) simp_all
    next
      case fallback
      from fallback(2) obtain b where "b \<in> set fallback_bases"
          "find_valid_symbol upper b reg = Some p"
        using in_resolutions by blast
      with fallback(1) show thesis by (intro rule [of b]) simp_all
    next
      case synth
      from synth(2) obtain b where "b \<in> set fallback_bases" "p = b @ ''USDT''" by auto
      with synth(1) show thesis by (intro rule [of b]) simp_all
    qed
  qed
  from cand have nf: "b \<notin> set stablecoins \<and> b \<notin> set excluded"
    using fallback_not_filtered [of b] by (auto simp: admitted_def)
  have origin: "p = b @ ''USDT''
          \<or> (p \<in> set reg \<and> b @ ''USDT'' \<notin> set reg
              \<and> (p = upper b @ ''USDT'' \<or> (b = ''HYPE'' \<and> p = ''HYPERUSDT'')
                  \<or> (startswith p b \<and> endswith p ''USDT'')))"
    using res find_valid_symbol_origin [of upper b reg p] by blast
  have base: "\<forall>s \<in> set stablecoins \<union> set excluded. p \<noteq> s @ ''USDT''"
    if "p = b @ ''USDT'' \<or> (b = ''HYPE'' \<and> p = ''HYPERUSDT'')"
  proof
    fix s assume s: "s \<in> set stablecoins \<union> set excluded"
    show "p \<noteq> s @ ''USDT''"
    proof
      assume eq: "p = s @ ''USDT''"
      from that show False
      proof
        assume "p = b @ ''USDT''"
        with eq have "s = b" by simp
        with s nf show False by blast
      next
        assume "b = ''HYPE'' \<and> p = ''HYPERUSDT''"
        with eq have "s @ ''USDT'' = ''HYPER'' @ ''USDT''" by simp
        then have "s = ''HYPER''" by (simp only: same_append_eq append_same_eq)
        with s hyper_not_filtered show False by blast
      qed
    qed
  qed
  from cand nf res origin base show ?thesis by blast
qed

text \<open>ETH is a ranked code that passes the filter and resolves by exact match.\<close>

theorem get_top10_symbols_candidates_filtered_witness:
  "''ETHUSDT'' \<in> set (get_top10_symbols ascii_upper None [''BTCUSDT'', ''ETHUSDT'']
                     (ranking_of [''BTC'', ''USDT'', ''ETH'']) (Some ''key'') 2 12)
   \<and> (\<exists>b. b \<notin> set stablecoins \<and> b \<notin> set excluded
          \<and> find_valid_symbol ascii_upper b [''BTCUSDT'', ''ETHUSDT''] = Some ''ETHUSDT'')"
proof -
  have h: "''ETHUSDT'' \<in> set (get_top10_symbols ascii_upper None [''BTCUSDT'', ''ETHUSDT'']
                     (ranking_of [''BTC'', ''USDT'', ''ETH'']) (Some ''key'') 2 12)"
    by code_simp
  have reg: "[''BTCUSDT'', ''ETHUSDT''] \<noteq> []" by simp
  from get_top10_symbols_candidates_filtered [OF h]
  obtain b where "b \<notin> set stablecoins" "b \<notin> set excluded"
      "([''BTCUSDT'', ''ETHUSDT''] \<noteq> []
          \<and> find_valid_symbol ascii_upper b [''BTCUSDT'', ''ETHUSDT''] = Some ''ETHUSDT'')
       \<or> ([''BTCUSDT'', ''ETHUSDT''] = [] \<and> ''ETHUSDT'' = b @ ''USDT'')"
    by (elim exE conjE)
  with reg have "\<exists>b. b \<notin> set stablecoins \<and> b \<notin> set excluded
          \<and> find_valid_symbol ascii_upper b [''BTCUSDT'', ''ETHUSDT''] = Some ''ETHUSDT''"
    by blast
  with h show ?thesis by (intro conjI)
qed

text \<open>
  Claim C5 as stated fails. The ranked code W is in neither set and has no exact match;
  the prefix scan finds \<^verbatim>\<open>WBTCUSDT\<close>, whose base WBTC is an excluded wrapped asset.
\<close>

theorem get_top10_symbols_wrapped_counterexample:
  "''WBTC'' \<in> set excluded
   \<and> ''WBTC'' @ ''USDT'' \<in> set (get_top10_symbols ascii_upper None [''BTCUSDT'', ''WBTCUSDT'']
                                 (ranking_of [''W'']) (Some ''key'') 1 11)"
  by code_simp

text \<open>
  Claim C7. For every asset code \<open>a\<close> and every registry that contains \<open>a\<close> followed by
  \<^verbatim>\<open>'USDT'\<close>, \<^verbatim>\<open>find_valid_symbol\<close> returns exactly that pair: the result does not depend
  on the alias, on what \<^verbatim>\<open>str.upper\<close> does, on the other entries of the registry or on
  their order.
\<close>

theorem find_valid_symbol_exact_match:
  "a @ ''USDT'' \<in> set valid_symbols \<Longrightarrow>
   find_valid_symbol upper a valid_symbols = Some (a @ ''USDT'')"
  by (simp add: find_valid_symbol_def)

text \<open>With the exact pair in the registry, HYPE resolves to it although the alias
  \<^verbatim>\<open>HYPERUSDT\<close> and a prefix match come earlier in the registry.\<close>

theorem find_valid_symbol_exact_match_witness:
  "''HYPE'' @ ''USDT'' \<in> set [''HYPERUSDT'', ''HYPEDOWNUSDT'', ''HYPEUSDT'']
   \<and> find_valid_symbol ascii_upper ''HYPE'' [''HYPERUSDT'', ''HYPEDOWNUSDT'', ''HYPEUSDT'']
       = Some (''HYPE'' @ ''USDT'')"
proof -
  have h: "''HYPE'' @ ''USDT'' \<in> set [''HYPERUSDT'', ''HYPEDOWNUSDT'', ''HYPEUSDT'']"
    by simp
  from find_valid_symbol_exact_match [OF h] h show ?thesis by blast
qed

section \<open>The merge of the fetched series\<close>

lemma dropna_rows:
  "rows (dropna df) = filter (\<lambda>(t, cells). list_all (\<lambda>c. c \<noteq> None) cells) (rows df)"
  by (simp add: dropna_def)

lemma dropna_columns: "columns (dropna df) = columns df"
  by (simp add: dropna_def)

lemma dropna_no_missing:
  "(t, cells) \<in> set (rows (dropna df)) \<Longrightarrow> None \<notin> set cells"
  by (auto simp: dropna_rows list_all_iff)

text \<open>The row labels hold exactly the timestamps of the frames.\<close>

lemma set_remove_all:
  "set (foldl (\<lambda>rest t. remove1 t rest) b a) \<union> set a = set b \<union> set a"
proof (induction a arbitrary: b)
  case Nil
  show ?case by simp
next
  case (Cons x a)
  have "set (foldl (\<lambda>rest t. remove1 t rest) b (x # a)) \<union> set (x # a)
      = insert x (set (foldl (\<lambda>rest t. remove1 t rest) (remove1 x b) a) \<union> set a)"
    by simp
  also have "\<dots> = insert x (set (remove1 x b) \<union> set a)"
    by (simp only: Cons.IH)
  also have "\<dots> = set b \<union> set (x # a)"
    using set_remove1_subset [of x b] by (auto simp: in_set_remove1)
  finally show ?case .
qed

lemma set_index_union: "set (index_union a b) = set a \<union> set b"
proof -
  have "set (sort (a @ foldl (\<lambda>rest t. remove1 t rest) b a)) = set a \<union> set b"
    using set_remove_all [of b a] by auto
  then show ?thesis by (auto simp: index_union_def)
qed

lemma set_foldl_index_union:
  "set (foldl index_union a indexes) = set a \<union> \<Union> (set ` set indexes)"
  by (induction indexes arbitrary: a) (auto simp: set_index_union)

lemma set_union_indexes:
  "indexes \<noteq> [] \<Longrightarrow> set (union_indexes indexes) = \<Union> (set ` set indexes)"
  by (cases indexes) (auto simp: union_indexes_def set_foldl_index_union)

text \<open>The column of a frame without repeated timestamps is found by lookup, whether
  the frame has the new labels already or not.\<close>

lemma close_at_Some:
  assumes "distinct (map fst s)"
  shows "close_at s t = Some v \<longleftrightarrow> (t, Some v) \<in> set s"
proof -
  have "close_at s t = Some v \<longleftrightarrow> map_of s t = Some (Some v)"
    by (auto simp: close_at_def split: option.splits)
  with assms show ?thesis by (simp only: map_of_eq_Some_iff)
qed

lemma close_at_own:
  assumes "distinct (map fst s)"
  shows "map (close_at s) (map fst s) = map snd s"
proof -
  have "close_at s (fst x) = snd x" if "x \<in> set s" for x
  proof -
    from that have "(fst x, snd x) \<in> set s" by simp
    with assms have "map_of s (fst x) = Some (snd x)" by (simp only: map_of_eq_Some_iff)
    then show ?thesis by (simp add: close_at_def)
  qed
  then show ?thesis by (simp add: comp_def cong: map_cong)
qed

lemma reindex_distinct:
  "distinct (map fst s) \<Longrightarrow> reindex new_labels s = Inr (map (close_at s) new_labels)"
  using close_at_own [of s] by (auto simp: reindex_def)

lemma reindex_error: "reindex new_labels s = Inl e \<Longrightarrow> e = InvalidIndexError"
  by (auto simp: reindex_def split: if_splits)

lemma collect_all:
  "(\<And>x. x \<in> set xs \<Longrightarrow> f x = Inr (g x)) \<Longrightarrow> collect (map f xs) = Inr (map g xs)"
  by (induction xs) simp_all

lemma collect_error: "collect rs = Inl e \<Longrightarrow> Inl e \<in> set rs"
proof (induction rs rule: collect.induct)
  case 1
  then show ?case by simp
next
  case (2 e' rs)
  then show ?case by simp
next
  case (3 x rs)
  then show ?case by (auto split: sum.splits)
qed

lemma collect_length: "collect rs = Inr xs \<Longrightarrow> length xs = length rs"
proof (induction rs arbitrary: xs rule: collect.induct)
  case 1
  then show ?case by simp
next
  case (2 e' rs)
  then show ?case by simp
next
  case (3 x rs)
  then show ?case by (auto split: sum.splits)
qed

lemma concat_axis1_columns: "concat_axis1 named = Inr df \<Longrightarrow> columns df = map fst named"
  by (auto simp: concat_axis1_def Let_def split: if_splits sum.splits)

lemma concat_axis1_error:
  "concat_axis1 named = Inl e \<Longrightarrow> e = NoObjectsError \<and> named = [] \<or> e = InvalidIndexError"
proof (cases "named = []")
  case True
  assume "concat_axis1 named = Inl e"
  with True show ?thesis by (simp add: concat_axis1_def)
next
  case False
  assume "concat_axis1 named = Inl e"
  with False have "collect (map (\<lambda>(name, s).
        reindex (union_indexes (map (\<lambda>(name, s). map fst s) named)) s) named) = Inl e"
    by (auto simp: concat_axis1_def Let_def split: sum.splits)
  then have "Inl e \<in> set (map (\<lambda>(name, s).
        reindex (union_indexes (map (\<lambda>(name, s). map fst s) named)) s) named)"
    by (rule collect_error)
  then show ?thesis by (auto dest: reindex_error [OF sym])
qed

text \<open>The aligned table of frames without repeated timestamps: one row for each label,
  with the close each frame has at it.\<close>

lemma concat_axis1_distinct:
  assumes ne: "named \<noteq> []"
    and dist: "\<forall>(name, s) \<in> set named. distinct (map fst s)"
  shows "concat_axis1 named =
     Inr \<lparr>columns = map fst named,
          rows = map (\<lambda>t. (t, map (\<lambda>(name, s). close_at s t) named))
                   (union_indexes (map (\<lambda>(name, s). map fst s) named))\<rparr>"
proof -
  let ?U = "union_indexes (map (\<lambda>(name, s). map fst s) named)"
  let ?cols = "map (\<lambda>(name, s). map (close_at s) ?U) named"
  have c: "collect (map (\<lambda>(name, s). reindex ?U s) named) = Inr ?cols"
  proof (rule collect_all)
    fix x assume "x \<in> set named"
    with dist have "distinct (map fst (snd x))" by (cases x) auto
    then show "(case x of (name, s) \<Rightarrow> reindex ?U s) = Inr (case x of (name, s) \<Rightarrow> map (close_at s) ?U)"
      by (cases x) (simp add: reindex_distinct)
  qed
  have cells: "map (\<lambda>col. col ! i) ?cols = map (\<lambda>(name, s). close_at s (?U ! i)) named"
    if "i < length ?U" for i
    using that by (auto simp: comp_def split: prod.splits)
  have "map (\<lambda>i. (?U ! i, map (\<lambda>col. col ! i) ?cols)) [0 ..< length ?U]
      = map (\<lambda>i. (?U ! i, map (\<lambda>(name, s). close_at s (?U ! i)) named)) [0 ..< length ?U]"
  proof (rule map_cong [OF refl])
    fix i assume "i \<in> set [0 ..< length ?U]"
    then have "i < length ?U" by simp
    then show "(?U ! i, map (\<lambda>col. col ! i) ?cols)
        = (?U ! i, map (\<lambda>(name, s). close_at s (?U ! i)) named)"
      by (simp only: cells)
  qed
  also have "\<dots> = map (\<lambda>t. (t, map (\<lambda>(name, s). close_at s t) named)) (map (\<lambda>i. ?U ! i) [0 ..< length ?U])"
    by (simp add: comp_def)
  also have "\<dots> = map (\<lambda>t. (t, map (\<lambda>(name, s). close_at s t) named)) ?U"
    by (simp only: map_nth)
  finally have r: "map (\<lambda>i. (?U ! i, map (\<lambda>col. col ! i) ?cols)) [0 ..< length ?U]
      = map (\<lambda>t. (t, map (\<lambda>(name, s). close_at s t) named)) ?U" .
  show ?thesis
    unfolding concat_axis1_def Let_def c
    by (simp only: ne if_False sum.case r)
qed

text \<open>A row survives \<^verbatim>\<open>dropna\<close> exactly when every series has a close at its timestamp.\<close>

lemma merge_series_distinct:
  assumes ne: "named \<noteq> []"
    and dist: "\<forall>(name, s) \<in> set named. distinct (map fst s)"
  shows "\<exists>df. merge_series named = Inr df \<and> columns df = map fst named
       \<and> set (map fst (rows df)) = {t. \<forall>(name, s) \<in> set named. \<exists>v. (t, Some v) \<in> set s}
       \<and> (\<forall>(t, cells) \<in> set (rows df). length cells = length named \<and> None \<notin> set cells)"
proof -
  let ?U = "union_indexes (map (\<lambda>(name, s). map fst s) named)"
  let ?row = "\<lambda>t. (t, map (\<lambda>(name, s). close_at s t) named)"
  let ?df = "\<lparr>columns = map fst named, rows = map ?row ?U\<rparr>"
  let ?full = "\<lambda>t. \<forall>(name, s) \<in> set named. \<exists>v. (t, Some v) \<in> set s"
  have c: "concat_axis1 named = Inr ?df"
    by (rule concat_axis1_distinct [OF ne dist])
  have m: "merge_series named = Inr (dropna ?df)"
    by (simp add: merge_series_def c)
  have present: "list_all (\<lambda>c. c \<noteq> None) (map (\<lambda>(name, s). close_at s t) named) \<longleftrightarrow> ?full t" for t
  proof -
    have one: "close_at (snd x) t \<noteq> None \<longleftrightarrow> (\<exists>v. (t, Some v) \<in> set (snd x))"
      if "x \<in> set named" for x
    proof -
      from that dist have d: "distinct (map fst (snd x))" by (cases x) auto
      show ?thesis using close_at_Some [OF d, of t] by (cases "close_at (snd x) t") auto
    qed
    have "list_all (\<lambda>c. c \<noteq> None) (map (\<lambda>(name, s). close_at s t) named)
        \<longleftrightarrow> (\<forall>x \<in> set named. close_at (snd x) t \<noteq> None)"
      by (simp add: list_all_iff split_beta del: not_None_eq)
    also have "\<dots> \<longleftrightarrow> (\<forall>x \<in> set named. \<exists>v. (t, Some v) \<in> set (snd x))"
      using one by (intro ball_cong refl) blast
    also have "\<dots> \<longleftrightarrow> ?full t"
      by (simp add: split_beta)
    finally show ?thesis .
  qed
  have labels: "set ?U = (\<Union>(name, s) \<in> set named. fst ` set s)"
    using ne by (auto simp: set_union_indexes split_beta)
  from ne obtain name0 s0 where in0: "(name0, s0) \<in> set named"
    by (cases named) auto
  have r: "rows (dropna ?df) = map ?row (filter ?full ?U)"
  proof -
    have "filter (\<lambda>(t, cells). list_all (\<lambda>c. c \<noteq> None) cells) (map ?row ?U)
        = map ?row (filter (\<lambda>t. list_all (\<lambda>c. c \<noteq> None) (map (\<lambda>(name, s). close_at s t) named)) ?U)"
      by (simp add: filter_map comp_def del: not_None_eq)
    also have "\<dots> = map ?row (filter ?full ?U)"
      by (simp only: present)
    finally show ?thesis
      unfolding dropna_rows frame.select_convs .
  qed
  have "map fst (rows (dropna ?df)) = filter ?full ?U"
    unfolding r by (simp add: comp_def)
  then have "set (map fst (rows (dropna ?df))) = {t \<in> set ?U. ?full t}"
    by (metis set_filter)
  also have "\<dots> = {t. ?full t}"
  proof -
    have "t \<in> set ?U" if "?full t" for t
    proof -
      from that in0 obtain v where "(t, Some v) \<in> set s0" by blast
      then have "t \<in> fst ` set s0" by force
      with in0 show ?thesis unfolding labels by blast
    qed
    then show ?thesis by blast
  qed
  finally have idx: "set (map fst (rows (dropna ?df))) = {t. ?full t}" .
  have cells: "\<forall>(t, cells) \<in> set (rows (dropna ?df)). length cells = length named \<and> None \<notin> set cells"
  proof -
    have a: "None \<notin> set cells" if "(t, cells) \<in> set (rows (dropna ?df))" for t cells
      using that by (rule dropna_no_missing)
    have b: "length cells = length named" if "(t, cells) \<in> set (rows (dropna ?df))" for t cells
      using that unfolding r by auto
    from a b show ?thesis by blast
  qed
  have cols: "columns (dropna ?df) = map fst named"
    by (simp add: dropna_columns)
  from m idx cells cols show ?thesis by blast
qed

text \<open>Without a NaN close, having a close at a timestamp is having a row at it.\<close>

lemma common_closes_intersection:
  assumes "\<forall>(name, s) \<in> set named. None \<notin> snd ` set s"
  shows "{t. \<forall>(name, s) \<in> set named. \<exists>v. (t, Some v) \<in> set s}
       = (\<Inter>(name, s) \<in> set named. fst ` set s)"
proof -
  have one: "(\<exists>v. (t, Some v) \<in> set (snd x)) \<longleftrightarrow> t \<in> fst ` set (snd x)"
    if "x \<in> set named" for x t
  proof
    assume "\<exists>v. (t, Some v) \<in> set (snd x)"
    then show "t \<in> fst ` set (snd x)" by force
  next
    assume "t \<in> fst ` set (snd x)"
    then obtain c where c: "(t, c) \<in> set (snd x)" by auto
    with assms that have "c \<noteq> None" by (cases x) force
    with c show "\<exists>v. (t, Some v) \<in> set (snd x)" by auto
  qed
  have "{t. \<forall>(name, s) \<in> set named. \<exists>v. (t, Some v) \<in> set s}
      = {t. \<forall>x \<in> set named. \<exists>v. (t, Some v) \<in> set (snd x)}"
    by (simp add: split_beta)
  also have "\<dots> = {t. \<forall>x \<in> set named. t \<in> fst ` set (snd x)}"
    using one by blast
  also have "\<dots> = (\<Inter>(name, s) \<in> set named. fst ` set s)"
    by (auto simp: split_beta)
  finally show ?thesis .
qed

text \<open>
  Claim C2, as amended. For every non-empty list of fetched series, each with strictly
  increasing (hence duplicate-free) timestamps, the post-fetch merge
  \<^verbatim>\<open>pd.concat(..., axis=1)\<close> followed by \<^verbatim>\<open>dropna()\<close> succeeds; the table has one column per
  series and no missing cell, and the set of its timestamps is exactly the set of the
  timestamps at which every series has a close that is not NaN. When no series has a
  NaN close this is the intersection of the timestamp sets of the series. Both modes
  call the merge on the series of the successful symbols, and only when there is at
  least one.
\<close>

theorem merge_series_intersection:
  assumes "named \<noteq> []"
    and "\<forall>(name, s) \<in> set named. sorted_wrt (<) (map fst s)"
  shows "\<exists>df. merge_series named = Inr df \<and> columns df = map fst named
       \<and> set (map fst (rows df)) = {t. \<forall>(name, s) \<in> set named. \<exists>v. (t, Some v) \<in> set s}
       \<and> (\<forall>(t, cells) \<in> set (rows df). length cells = length named \<and> None \<notin> set cells)
       \<and> ((\<forall>(name, s) \<in> set named. None \<notin> snd ` set s)
            \<longrightarrow> set (map fst (rows df)) = (\<Inter>(name, s) \<in> set named. fst ` set s))"
proof -
  from assms(2) have "\<forall>(name, s) \<in> set named. distinct (map fst s)"
    by (auto simp: strict_sorted_iff)
  with assms(1) obtain df where df: "merge_series named = Inr df" "columns df = map fst named"
      "set (map fst (rows df)) = {t. \<forall>(name, s) \<in> set named. \<exists>v. (t, Some v) \<in> set s}"
      "\<forall>(t, cells) \<in> set (rows df). length cells = length named \<and> None \<notin> set cells"
    using merge_series_distinct [of named] by blast
  have inter: "(\<forall>(name, s) \<in> set named. None \<notin> snd ` set s)
      \<longrightarrow> set (map fst (rows df)) = (\<Inter>(name, s) \<in> set named. fst ` set s)"
    unfolding df(3) by (rule impI) (rule common_closes_intersection)
  from df inter show ?thesis by (intro exI [of _ df] conjI)
qed

text \<open>Two series without a NaN close that share one timestamp out of three.\<close>

theorem merge_series_intersection_witness:
  "example_series \<noteq> []
   \<and> list_all (\<lambda>(name, s). sorted_wrt (<) (map fst s)) example_series
   \<and> list_all (\<lambda>(name, s). None \<notin> snd ` set s) example_series
   \<and> merge_series example_series
       = Inr \<lparr>columns = [''BTCUSDT'', ''NEWUSDT''], rows = [(1704240000000, [Some 43000, Some 5])]\<rparr>
   \<and> (\<exists>df. merge_series example_series = Inr df
       \<and> set (map fst (rows df))
           = {t. \<forall>(name, s) \<in> set example_series. \<exists>v. (t, Some v) \<in> set s}
       \<and> set (map fst (rows df)) = (\<Inter>(name, s) \<in> set example_series. fst ` set s))"
proof -
  have h1: "example_series \<noteq> []" by (simp add: example_series_def)
  have h2: "list_all (\<lambda>(name, s). sorted_wrt (<) (map fst s)) example_series"
    by (simp add: example_series_def)
  then have h2': "\<forall>(name, s) \<in> set example_series. sorted_wrt (<) (map fst s)"
    by (simp add: list_all_iff)
  have h3: "list_all (\<lambda>(name, s). None \<notin> snd ` set s) example_series"
    by (simp add: example_series_def)
  then have h3': "\<forall>(name, s) \<in> set example_series. None \<notin> snd ` set s"
    by (simp add: list_all_iff)
  have v: "merge_series example_series
       = Inr \<lparr>columns = [''BTCUSDT'', ''NEWUSDT''], rows = [(1704240000000, [Some 43000, Some 5])]\<rparr>"
    by code_simp
  from merge_series_intersection [OF h1 h2']
  obtain df where df: "merge_series example_series = Inr df"
      "set (map fst (rows df))
         = {t. \<forall>(name, s) \<in> set example_series. \<exists>v. (t, Some v) \<in> set s}"
      "(\<forall>(name, s) \<in> set example_series. None \<notin> snd ` set s)
         \<longrightarrow> set (map fst (rows df)) = (\<Inter>(name, s) \<in> set example_series. fst ` set s)"
    by (elim exE conjE)
  from df(3) h3' have "set (map fst (rows df)) = (\<Inter>(name, s) \<in> set example_series. fst ` set s)"
    by (rule mp)
  with df(1,2) have "\<exists>df. merge_series example_series = Inr df
       \<and> set (map fst (rows df))
           = {t. \<forall>(name, s) \<in> set example_series. \<exists>v. (t, Some v) \<in> set s}
       \<and> set (map fst (rows df)) = (\<Inter>(name, s) \<in> set example_series. fst ` set s)"
    by (intro exI [of _ df] conjI)
  with h1 h2 h3 v show ?thesis by (intro conjI)
qed

text \<open>
  Claim C2 as stated fails. Both series have rows at the same two timestamps, in
  increasing order, but the close of the first series at the first timestamp is NaN:
  \<^verbatim>\<open>dropna\<close> removes that row, and the table holds the second timestamp only, not the
  intersection of the timestamp sets.
\<close>

theorem merge_series_nan_counterexample:
  "list_all (\<lambda>(name, s). sorted_wrt (<) (map fst s) \<and> 1704067200000 \<in> set (map fst s))
      example_series_nan
   \<and> merge_series example_series_nan
       = Inr \<lparr>columns = [''BTCUSDT'', ''ETHUSDT''],
              rows = [(1704070800000, [Some 42100, Some 2310])]\<rparr>"
  by code_simp

section \<open>Rolling-window mode\<close>

lemma merge_series_columns: "merge_series named = Inr df \<Longrightarrow> columns df = map fst named"
  by (auto simp: merge_series_def dropna_columns concat_axis1_columns split: sum.splits)

lemma merge_series_error:
  "merge_series named = Inl e \<Longrightarrow> e = NoObjectsError \<and> named = [] \<or> e = InvalidIndexError"
  by (auto simp: merge_series_def split: sum.splits dest: concat_axis1_error)

lemma report_date_range_cases:
  "report_date_range df = (if rows df = [] then Inl IndexError else Inr df)"
  by (simp add: report_date_range_def)

text \<open>The loop of the rolling-window mode in closed form.\<close>

lemma rolling_loop_eq:
  "rolling_loop w source days_back timeframe symbols st =
     \<lparr>all_data = all_data st @ map (\<lambda>symbol. (symbol, the (fetch_by_source w source days_back timeframe symbol)))
                                (filter (fetched w source days_back timeframe) symbols),
      successful_symbols = successful_symbols st @ filter (fetched w source days_back timeframe) symbols,
      failed_symbols = failed_symbols st @ filter (\<lambda>symbol. \<not> fetched w source days_back timeframe symbol) symbols\<rparr>"
  by (induction symbols arbitrary: st) (simp_all add: fetched_def Let_def)

lemma rolling_fetch_given:
  "rolling_fetch w (Some symbols) source days_back timeframe api_key target_count =
     \<lparr>all_data = map (\<lambda>symbol. (symbol, the (fetch_by_source w source days_back timeframe symbol)))
                   (filter (fetched w source days_back timeframe) symbols),
      successful_symbols = filter (fetched w source days_back timeframe) symbols,
      failed_symbols = filter (\<lambda>symbol. \<not> fetched w source days_back timeframe symbol) symbols\<rparr>"
  by (simp add: rolling_fetch_def select_symbols_def rolling_loop_eq)

lemma fetched_iff:
  "fetched w source days_back timeframe symbol \<longleftrightarrow>
     (\<exists>s. fetch_by_source w source days_back timeframe symbol = Some s \<and> s \<noteq> [])"
  by (auto simp: fetched_def Let_def)

lemma get_multiple_cryptos_data_columns:
  "get_multiple_cryptos_data w symbols source days_back timeframe api_key target_count = Inr df \<Longrightarrow>
   columns df = successful_symbols (rolling_fetch w symbols source days_back timeframe api_key target_count)"
proof -
  assume r: "get_multiple_cryptos_data w symbols source days_back timeframe api_key target_count = Inr df"
  let ?st = "rolling_fetch w symbols source days_back timeframe api_key target_count"
  from r have m: "merge_series (all_data ?st) = Inr df"
    by (auto simp: get_multiple_cryptos_data_def Let_def report_date_range_def
        split: if_splits sum.splits)
  have "map fst (all_data ?st) = successful_symbols ?st"
    by (simp add: rolling_fetch_def rolling_loop_eq Let_def comp_def)
  with merge_series_columns [OF m] show ?thesis by simp
qed

text \<open>The \<^verbatim>\<open>ValueError\<close> of the rolling-window mode is raised exactly when no symbol passed
  the test \<^verbatim>\<open>data is not None and len(data) > 0\<close>.\<close>

lemma rolling_no_data_iff:
  "get_multiple_cryptos_data w (Some symbols) source days_back timeframe api_key target_count = Inl NoDataError
   \<longleftrightarrow> \<not> list_ex (fetched w source days_back timeframe) symbols"
proof -
  let ?st = "rolling_fetch w (Some symbols) source days_back timeframe api_key target_count"
  have a: "all_data ?st = [] \<longleftrightarrow> \<not> list_ex (fetched w source days_back timeframe) symbols"
    by (simp add: rolling_fetch_given filter_empty_conv list_ex_iff)
  show ?thesis
    by (auto simp: get_multiple_cryptos_data_def Let_def a report_date_range_def
        split: sum.splits dest: merge_series_error)
qed

text \<open>
  Claim C10. In rolling-window mode a symbol of the list whose fetch returns a series
  that is not \<^verbatim>\<open>None\<close> but has no row is appended to \<^verbatim>\<open>failed_symbols\<close>, is not in
  \<^verbatim>\<open>successful_symbols\<close>, has no entry in \<^verbatim>\<open>all_data\<close> and so names no column of the
  table returned. The successful symbols are exactly those of the list whose fetch
  returns a series with at least one row.
\<close>

theorem empty_series_not_successful:
  assumes "symbol \<in> set symbols"
    and "fetch_by_source w source days_back timeframe symbol = Some []"
  shows "symbol \<in> set (failed_symbols (rolling_fetch w (Some symbols) source days_back timeframe api_key target_count))
       \<and> symbol \<notin> set (successful_symbols (rolling_fetch w (Some symbols) source days_back timeframe api_key target_count))
       \<and> symbol \<notin> fst ` set (all_data (rolling_fetch w (Some symbols) source days_back timeframe api_key target_count))
       \<and> (\<forall>df. get_multiple_cryptos_data w (Some symbols) source days_back timeframe api_key target_count = Inr df
              \<longrightarrow> symbol \<notin> set (columns df))
       \<and> set (successful_symbols (rolling_fetch w (Some symbols) source days_back timeframe api_key target_count))
           = {s \<in> set symbols. \<exists>rows. fetch_by_source w source days_back timeframe s = Some rows \<and> rows \<noteq> []}"
proof -
  let ?st = "rolling_fetch w (Some symbols) source days_back timeframe api_key target_count"
  from assms(2) have nf: "\<not> fetched w source days_back timeframe symbol"
    by (simp add: fetched_iff)
  have f: "symbol \<in> set (failed_symbols ?st)"
    using assms(1) nf by (simp add: rolling_fetch_given)
  have s: "symbol \<notin> set (successful_symbols ?st)"
    using nf by (simp add: rolling_fetch_given)
  have a: "symbol \<notin> fst ` set (all_data ?st)"
    using nf by (auto simp: rolling_fetch_given)
  have c: "symbol \<notin> set (columns df)"
    if "get_multiple_cryptos_data w (Some symbols) source days_back timeframe api_key target_count = Inr df"
    for df
    using get_multiple_cryptos_data_columns [OF that] s by simp
  have e: "set (successful_symbols ?st)
      = {s \<in> set symbols. \<exists>rows. fetch_by_source w source days_back timeframe s = Some rows \<and> rows \<noteq> []}"
    by (auto simp: rolling_fetch_given fetched_iff)
  from f s a c e show ?thesis by blast
qed

text \<open>The live API answers 200 with no candle for \<^verbatim>\<open>HALTUSDT\<close>.\<close>

theorem empty_series_not_successful_witness:
  "''HALTUSDT'' \<in> set [''ETHUSDT'', ''HALTUSDT'']
   \<and> fetch_by_source example_world ''api'' 7 ''1h'' ''HALTUSDT'' = Some []
   \<and> failed_symbols (rolling_fetch example_world (Some [''ETHUSDT'', ''HALTUSDT'']) ''api'' 7 ''1h'' None 10)
       = [''HALTUSDT'']
   \<and> ''HALTUSDT'' \<notin> set (successful_symbols
         (rolling_fetch example_world (Some [''ETHUSDT'', ''HALTUSDT'']) ''api'' 7 ''1h'' None 10))
   \<and> get_multiple_cryptos_data example_world (Some [''ETHUSDT'', ''HALTUSDT'']) ''api'' 7 ''1h'' None 10
       = Inr \<lparr>columns = [''ETHUSDT''], rows = [(1704326400000, [Some 2300])]\<rparr>"
proof -
  have h1: "''HALTUSDT'' \<in> set [''ETHUSDT'', ''HALTUSDT'']" by simp
  have h2: "fetch_by_source example_world ''api'' 7 ''1h'' ''HALTUSDT'' = Some []" by code_simp
  have v1: "failed_symbols (rolling_fetch example_world (Some [''ETHUSDT'', ''HALTUSDT'']) ''api'' 7 ''1h'' None 10)
       = [''HALTUSDT'']" by code_simp
  have v2: "get_multiple_cryptos_data example_world (Some [''ETHUSDT'', ''HALTUSDT'']) ''api'' 7 ''1h'' None 10
       = Inr \<lparr>columns = [''ETHUSDT''], rows = [(1704326400000, [Some 2300])]\<rparr>" by code_simp
  from empty_series_not_successful [OF h1 h2, of None 10] h1 h2 v1 v2 show ?thesis by blast
qed

text \<open>
  Claim C3 (a defect of the program). The claim says that no error is raised and the
  partial result is returned whenever at least one symbol succeeds. Here two symbols
  succeed in each mode, but their series have no timestamp in common: the merged table
  has no row, and the report line \<^verbatim>\<open>print(f"Date range: {combined_df.index[0]} to ...")\<close>
  (line 296, and line 369 in multi-day mode) raises \<^verbatim>\<open>IndexError\<close> before the table is
  returned. In rolling-window mode \<^verbatim>\<open>BTCUSDT\<close> comes from yesterday's archive and
  \<^verbatim>\<open>NEWUSDT\<close>, listed today, from the live API; in multi-day mode \<^verbatim>\<open>BTCUSDT\<close> has files
  for the first and third day and \<^verbatim>\<open>SOLUSDT\<close> for the second.
\<close>

theorem disjoint_timestamps_index_error:
  "successful_symbols (rolling_fetch example_world (Some [''BTCUSDT'', ''NEWUSDT'']) ''auto'' 7 ''1h'' None 10)
     = [''BTCUSDT'', ''NEWUSDT'']
   \<and> get_multiple_cryptos_data example_world (Some [''BTCUSDT'', ''NEWUSDT'']) ''auto'' 7 ''1h'' None 10
       = Inl IndexError
   \<and> map fst (all_symbol_data (multi_day_fetch example_world (Some [''BTCUSDT'', ''SOLUSDT''])
         (Some ''2024-01-01'') (Some ''2024-01-03'') None 10)) = [''BTCUSDT'', ''SOLUSDT'']
   \<and> get_crypto_data_multi_day example_world (Some [''BTCUSDT'', ''SOLUSDT''])
         (Some ''2024-01-01'') (Some ''2024-01-03'') None 10 = Inl IndexError"
  by code_simp

text \<open>
  Claim C8. For every symbol, timeframe and date (given, or yesterday by default), when
  the archive answers the request with a status other than 200, which every
  non-success status is, \<^verbatim>\<open>get_binance_vision_data\<close> returns \<^verbatim>\<open>None\<close>: the payload is not
  read and nothing is raised.
\<close>

theorem get_binance_vision_data_non_success:
  "status_code (http_get w (vision_request w symbol date timeframe)) \<noteq> 200 \<Longrightarrow>
   get_binance_vision_data w symbol date timeframe = None"
  by (simp add: get_binance_vision_data_def)

text \<open>A date in the future, for which the archive has no file.\<close>

theorem get_binance_vision_data_non_success_witness:
  "status_code (http_get example_world (vision_request example_world ''BTCUSDT'' (Some ''2031-05-17'') ''4h'')) = 404
   \<and> get_binance_vision_data example_world ''BTCUSDT'' (Some ''2031-05-17'') ''4h'' = None"
proof -
  have v: "status_code (http_get example_world
             (vision_request example_world ''BTCUSDT'' (Some ''2031-05-17'') ''4h'')) = 404"
    by code_simp
  then have h: "status_code (http_get example_world
             (vision_request example_world ''BTCUSDT'' (Some ''2031-05-17'') ''4h'')) \<noteq> 200"
    by simp
  from get_binance_vision_data_non_success [OF h] v show ?thesis by blast
qed

text \<open>With source \<^verbatim>\<open>'auto'\<close> a symbol the archive has nothing for is asked from the live
  API.\<close>

lemma fetch_auto_failover:
  "get_binance_vision_data w symbol None timeframe = None \<Longrightarrow>
   fetch_by_source w ''auto'' days_back timeframe symbol
     = get_binance_klines w symbol timeframe (klines_limit days_back timeframe)"
  by (simp add: fetch_by_source_def)

text \<open>
  Claim C4, as amended. In rolling-window mode with source \<^verbatim>\<open>'auto'\<close>, if the archive
  returns none for every symbol of the list and the live API returns a non-empty series
  for at least one of them, the aggregator does not raise the no-data error. If
  moreover the live series have strictly increasing timestamps and there is a timestamp
  at which each of the non-empty ones has a close that is not NaN, it returns a table
  with at least one row, whose columns are the symbols with a non-empty series. What
  happens when there is no such timestamp is not part of the amended claim.
\<close>

theorem auto_failover_to_live:
  assumes vis: "\<forall>symbol \<in> set symbols. get_binance_vision_data w symbol None timeframe = None"
    and live: "\<exists>symbol \<in> set symbols. \<exists>s.
        get_binance_klines w symbol timeframe (klines_limit days_back timeframe) = Some s \<and> s \<noteq> []"
  shows "get_multiple_cryptos_data w (Some symbols) ''auto'' days_back timeframe api_key target_count
           \<noteq> Inl NoDataError
       \<and> ((\<forall>symbol \<in> set symbols. \<forall>s.
              get_binance_klines w symbol timeframe (klines_limit days_back timeframe) = Some s
              \<longrightarrow> sorted_wrt (<) (map fst s))
          \<and> (\<exists>t. \<forall>symbol \<in> set symbols. \<forall>s.
              get_binance_klines w symbol timeframe (klines_limit days_back timeframe) = Some s \<and> s \<noteq> []
              \<longrightarrow> (\<exists>v. (t, Some v) \<in> set s))
          \<longrightarrow> (\<exists>df. get_multiple_cryptos_data w (Some symbols) ''auto'' days_back timeframe api_key target_count
                       = Inr df
                    \<and> rows df \<noteq> []
                    \<and> columns df = filter (fetched w ''auto'' days_back timeframe) symbols))"
proof -
  let ?limit = "klines_limit days_back timeframe"
  let ?get = "get_multiple_cryptos_data w (Some symbols) ''auto'' days_back timeframe api_key target_count"
  let ?st = "rolling_fetch w (Some symbols) ''auto'' days_back timeframe api_key target_count"
  let ?ok = "filter (fetched w ''auto'' days_back timeframe) symbols"
  have fb: "fetch_by_source w ''auto'' days_back timeframe symbol = get_binance_klines w symbol timeframe ?limit"
    if "symbol \<in> set symbols" for symbol
    using vis that by (simp add: fetch_auto_failover)
  from live obtain symbol0 s0 where s0: "symbol0 \<in> set symbols"
      "get_binance_klines w symbol0 timeframe ?limit = Some s0" "s0 \<noteq> []"
    by blast
  then have "fetched w ''auto'' days_back timeframe symbol0"
    by (simp add: fetched_iff fb)
  with s0(1) have "list_ex (fetched w ''auto'' days_back timeframe) symbols"
    by (auto simp: list_ex_iff)
  then have first: "?get \<noteq> Inl NoDataError"
    by (simp add: rolling_no_data_iff)
  have second: "\<exists>df. ?get = Inr df \<and> rows df \<noteq> [] \<and> columns df = ?ok"
    if incr: "\<forall>symbol \<in> set symbols. \<forall>s.
              get_binance_klines w symbol timeframe ?limit = Some s \<longrightarrow> sorted_wrt (<) (map fst s)"
      and common: "\<exists>t. \<forall>symbol \<in> set symbols. \<forall>s.
              get_binance_klines w symbol timeframe ?limit = Some s \<and> s \<noteq> []
              \<longrightarrow> (\<exists>v. (t, Some v) \<in> set s)"
  proof -
    have ad: "all_data ?st = map (\<lambda>symbol. (symbol, the (fetch_by_source w ''auto'' days_back timeframe symbol))) ?ok"
      by (simp add: rolling_fetch_given)
    have ne: "all_data ?st \<noteq> []"
      using \<open>fetched w ''auto'' days_back timeframe symbol0\<close> s0(1)
      by (auto simp: ad filter_empty_conv)
    have member: "\<exists>symbol \<in> set symbols. get_binance_klines w symbol timeframe ?limit = Some s \<and> s \<noteq> []"
      if "(name, s) \<in> set (all_data ?st)" for name s
    proof -
      from that obtain symbol where sy: "symbol \<in> set symbols" "fetched w ''auto'' days_back timeframe symbol"
          and s: "s = the (fetch_by_source w ''auto'' days_back timeframe symbol)"
        by (auto simp: ad)
      from sy(2) obtain s' where s': "fetch_by_source w ''auto'' days_back timeframe symbol = Some s'" "s' \<noteq> []"
        by (auto simp: fetched_iff)
      have k: "get_binance_klines w symbol timeframe ?limit = Some s'"
        unfolding fb [OF sy(1), symmetric] by (rule s'(1))
      from s s'(1) have "s = s'" by simp
      with k s'(2) sy(1) show ?thesis by blast
    qed
    have dist: "\<forall>(name, s) \<in> set (all_data ?st). distinct (map fst s)"
    proof -
      have "distinct (map fst s)" if "(name, s) \<in> set (all_data ?st)" for name s
        using member [OF that] incr by (auto simp: strict_sorted_iff)
      then show ?thesis by blast
    qed
    from merge_series_distinct [OF ne dist] obtain df where
        m: "merge_series (all_data ?st) = Inr df"
        and cols: "columns df = map fst (all_data ?st)"
        and idx: "set (map fst (rows df))
            = {t. \<forall>(name, s) \<in> set (all_data ?st). \<exists>v. (t, Some v) \<in> set s}"
      by (elim exE conjE)
    from common obtain t where t: "\<forall>symbol \<in> set symbols. \<forall>s.
        get_binance_klines w symbol timeframe ?limit = Some s \<and> s \<noteq> []
        \<longrightarrow> (\<exists>v. (t, Some v) \<in> set s)"
      by (rule exE)
    have "t \<in> {t. \<forall>(name, s) \<in> set (all_data ?st). \<exists>v. (t, Some v) \<in> set s}"
    proof -
      have "\<exists>v. (t, Some v) \<in> set s" if "(name, s) \<in> set (all_data ?st)" for name s
        using member [OF that] t by blast
      then show ?thesis by blast
    qed
    with idx have "t \<in> set (map fst (rows df))" by (simp only:)
    then have rows: "rows df \<noteq> []" by auto
    have "?get = Inr df"
      using ne m rows by (simp add: get_multiple_cryptos_data_def Let_def report_date_range_def)
    moreover have "columns df = ?ok"
      by (simp add: cols ad comp_def)
    ultimately show ?thesis using rows by blast
  qed
  from first second show ?thesis by blast
qed

text \<open>The archive has nothing for either symbol; the live API knows one of them.\<close>

theorem auto_failover_to_live_witness:
  "list_all (\<lambda>symbol. get_binance_vision_data example_world symbol None ''1h'' = None)
      [''NEWUSDT'', ''XYZUSDT'']
   \<and> get_binance_klines example_world ''NEWUSDT'' ''1h'' (klines_limit 7 ''1h'')
        = Some [(1704326400000, Some 5)]
   \<and> get_binance_klines example_world ''XYZUSDT'' ''1h'' (klines_limit 7 ''1h'') = None
   \<and> get_multiple_cryptos_data example_world (Some [''NEWUSDT'', ''XYZUSDT'']) ''auto'' 7 ''1h'' None 10
        = Inr \<lparr>columns = [''NEWUSDT''], rows = [(1704326400000, [Some 5])]\<rparr>
   \<and> get_multiple_cryptos_data example_world (Some [''NEWUSDT'', ''XYZUSDT'']) ''auto'' 7 ''1h'' None 10
        \<noteq> Inl NoDataError
   \<and> (\<exists>df. get_multiple_cryptos_data example_world (Some [''NEWUSDT'', ''XYZUSDT''])
              ''auto'' 7 ''1h'' None 10 = Inr df
          \<and> rows df \<noteq> [])"
proof -
  let ?symbols = "[''NEWUSDT'', ''XYZUSDT'']"
  let ?get = "get_multiple_cryptos_data example_world (Some ?symbols) ''auto'' 7 ''1h'' None 10"
  have v1: "list_all (\<lambda>symbol. get_binance_vision_data example_world symbol None ''1h'' = None) ?symbols"
    by code_simp
  then have vis: "\<forall>symbol \<in> set ?symbols. get_binance_vision_data example_world symbol None ''1h'' = None"
    by (simp add: list_all_iff)
  have v2: "get_binance_klines example_world ''NEWUSDT'' ''1h'' (klines_limit 7 ''1h'')
        = Some [(1704326400000, Some 5)]"
    by code_simp
  have v3: "get_binance_klines example_world ''XYZUSDT'' ''1h'' (klines_limit 7 ''1h'') = None"
    by code_simp
  have v4: "?get = Inr \<lparr>columns = [''NEWUSDT''], rows = [(1704326400000, [Some 5])]\<rparr>"
    by code_simp
  have live: "\<exists>symbol \<in> set ?symbols. \<exists>s.
        get_binance_klines example_world symbol ''1h'' (klines_limit 7 ''1h'') = Some s \<and> s \<noteq> []"
    using v2 by simp
  have incr: "\<forall>symbol \<in> set ?symbols. \<forall>s.
        get_binance_klines example_world symbol ''1h'' (klines_limit 7 ''1h'') = Some s
        \<longrightarrow> sorted_wrt (<) (map fst s)"
    using v2 v3 by auto
  have common: "\<exists>t. \<forall>symbol \<in> set ?symbols. \<forall>s.
        get_binance_klines example_world symbol ''1h'' (klines_limit 7 ''1h'') = Some s \<and> s \<noteq> []
        \<longrightarrow> (\<exists>v. (t, Some v) \<in> set s)"
    using v2 v3 by (intro exI [of _ 1704326400000]) auto
  note inst = auto_failover_to_live [OF vis live, of None 10]
  from inst have first: "?get \<noteq> Inl NoDataError"
    by (rule conjunct1)
  from incr common have "\<exists>df. ?get = Inr df \<and> rows df \<noteq> []
      \<and> columns df = filter (fetched example_world ''auto'' 7 ''1h'') ?symbols"
    by (intro mp [OF conjunct2 [OF inst]] conjI)
  then have second: "\<exists>df. ?get = Inr df \<and> rows df \<noteq> []"
    by (elim exE conjE) (intro exI conjI)
  from v1 v2 v3 v4 first second show ?thesis by (intro conjI)
qed

text \<open>
  Claim C4 as stated fails. The archive has nothing for \<^verbatim>\<open>OLDUSDT\<close> and \<^verbatim>\<open>NEWUSDT\<close>, the
  live API succeeds for both, but the last candle of the first is older than the first
  candle of the second: no row survives \<^verbatim>\<open>dropna\<close> and the call ends in an error
  instead of returning a non-empty table.
\<close>

theorem auto_failover_disjoint_counterexample:
  "get_binance_vision_data example_world ''OLDUSDT'' None ''1h'' = None
   \<and> get_binance_vision_data example_world ''NEWUSDT'' None ''1h'' = None
   \<and> get_binance_klines example_world ''OLDUSDT'' ''1h'' (klines_limit 7 ''1h'') = Some [(1701388800000, Some 7)]
   \<and> get_binance_klines example_world ''NEWUSDT'' ''1h'' (klines_limit 7 ''1h'') = Some [(1704326400000, Some 5)]
   \<and> get_multiple_cryptos_data example_world (Some [''OLDUSDT'', ''NEWUSDT'']) ''auto'' 7 ''1h'' None 10
        = Inl IndexError"
  by code_simp

section \<open>Multi-day mode\<close>

text \<open>The day loop in closed form: every date is requested, in order, whatever the
  answers are.\<close>

lemma vision_request_given:
  "vision_request w symbol (Some date) timeframe = VisionArchive symbol timeframe date"
  by (simp add: vision_request_def)

lemma day_loop_eq:
  "day_loop w symbol dates st =
     \<lparr>symbol_data_list = symbol_data_list st
          @ map the (filter (\<lambda>data. data \<noteq> None)
                       (map (\<lambda>date. get_binance_vision_data w symbol (Some date) ''1h'') dates)),
      successful_days = successful_days st
          + length (filter (\<lambda>data. data \<noteq> None)
                       (map (\<lambda>date. get_binance_vision_data w symbol (Some date) ''1h'') dates)),
      day_requests = day_requests st @ map (\<lambda>date. VisionArchive symbol ''1h'' date) dates\<rparr>"
  by (induction dates arbitrary: st) (simp_all add: Let_def vision_request_given del: not_None_eq)

lemma day_loop_requests:
  "day_requests (day_loop w symbol dates st)
     = day_requests st @ map (\<lambda>date. VisionArchive symbol ''1h'' date) dates"
  by (simp add: day_loop_eq)

lemma day_loop_has_data:
  "symbol_data_list (day_loop w symbol dates
       \<lparr>symbol_data_list = [], successful_days = 0, day_requests = rs\<rparr>) \<noteq> []
   \<longleftrightarrow> has_data w dates symbol"
  by (auto simp: day_loop_eq has_data_def list_ex_iff filter_empty_conv simp del: not_None_eq)

lemma dict_set_map_fst: "set (map fst (dict_set kvs k v)) = insert k (set (map fst kvs))"
  by (induction kvs) force+

lemma dict_set_keys: "fst ` set (dict_set kvs k v) = insert k (fst ` set kvs)"
  using dict_set_map_fst [of kvs k v] by simp

text \<open>One round of the loop over the symbols.\<close>

lemma multi_day_loop_stop:
  "successful_count st \<ge> target_count \<Longrightarrow>
   multi_day_loop w dates target_count symbols st = st"
  by (cases symbols) simp_all

lemma multi_day_loop_step:
  assumes "\<not> successful_count st \<ge> target_count"
  shows "\<exists>st1. multi_day_loop w dates target_count (symbol # symbols) st
            = multi_day_loop w dates target_count symbols st1
        \<and> requests st1 = requests st @ map (\<lambda>date. VisionArchive symbol ''1h'' date) dates
        \<and> successful_count st1 = successful_count st + (if has_data w dates symbol then 1 else 0)
        \<and> fst ` set (all_symbol_data st1)
            = fst ` set (all_symbol_data st) \<union> (if has_data w dates symbol then {symbol} else {})"
proof (cases "has_data w dates symbol")
  case True
  then have ne: "symbol_data_list (day_loop w symbol dates
       \<lparr>symbol_data_list = [], successful_days = 0, day_requests = requests st\<rparr>) \<noteq> []"
    by (simp only: day_loop_has_data)
  show ?thesis
    using assms ne True
    by (intro exI [of _ "\<lparr>all_symbol_data = dict_set (all_symbol_data st) symbol
             (concat (symbol_data_list (day_loop w symbol dates
                \<lparr>symbol_data_list = [], successful_days = 0, day_requests = requests st\<rparr>))),
           successful_count = successful_count st + 1,
           requests = day_requests (day_loop w symbol dates
                \<lparr>symbol_data_list = [], successful_days = 0, day_requests = requests st\<rparr>)\<rparr>"])
       (simp add: Let_def day_loop_requests dict_set_keys)
next
  case False
  then have e: "symbol_data_list (day_loop w symbol dates
       \<lparr>symbol_data_list = [], successful_days = 0, day_requests = requests st\<rparr>) = []"
    using day_loop_has_data [of w symbol dates "requests st"] by blast
  show ?thesis
    using assms e False
    by (intro exI [of _ "st\<lparr>requests := day_requests (day_loop w symbol dates
                \<lparr>symbol_data_list = [], successful_days = 0, day_requests = requests st\<rparr>)\<rparr>"])
       (simp add: Let_def day_loop_requests)
qed

text \<open>The loop over the symbols: it visits a prefix of the list, runs the whole day loop
  for every symbol it visits, and stops early only once the target is reached.\<close>

lemma multi_day_loop_trace:
  "\<exists>k \<le> length symbols.
      requests (multi_day_loop w dates target_count symbols st)
        = requests st @ concat (map (\<lambda>symbol. map (\<lambda>date. VisionArchive symbol ''1h'' date) dates)
                                 (take k symbols))
    \<and> successful_count (multi_day_loop w dates target_count symbols st)
        = successful_count st + int (length (filter (has_data w dates) (take k symbols)))
    \<and> fst ` set (all_symbol_data (multi_day_loop w dates target_count symbols st))
        = fst ` set (all_symbol_data st) \<union> set (filter (has_data w dates) (take k symbols))
    \<and> (k < length symbols \<longrightarrow>
          successful_count (multi_day_loop w dates target_count symbols st) \<ge> target_count)
    \<and> (\<forall>j < k. successful_count st + int (length (filter (has_data w dates) (take j symbols)))
                  < target_count)"
proof (induction symbols arbitrary: st)
  case Nil
  show ?case by simp
next
  case (Cons symbol symbols)
  show ?case
  proof (cases "successful_count st \<ge> target_count")
    case True
    then have "multi_day_loop w dates target_count (symbol # symbols) st = st"
      by (rule multi_day_loop_stop)
    with True show ?thesis by (intro exI [of _ 0]) simp
  next
    case False
    from multi_day_loop_step [OF False, of w dates symbol symbols]
    obtain st1 where
        run: "multi_day_loop w dates target_count (symbol # symbols) st
                = multi_day_loop w dates target_count symbols st1"
        and rq: "requests st1 = requests st @ map (\<lambda>date. VisionArchive symbol ''1h'' date) dates"
        and sc: "successful_count st1 = successful_count st + (if has_data w dates symbol then 1 else 0)"
        and ks: "fst ` set (all_symbol_data st1)
            = fst ` set (all_symbol_data st) \<union> (if has_data w dates symbol then {symbol} else {})"
      by blast
    from Cons.IH [of st1] obtain k where
        k: "k \<le> length symbols"
        and r: "requests (multi_day_loop w dates target_count symbols st1)
          = requests st1 @ concat (map (\<lambda>symbol. map (\<lambda>date. VisionArchive symbol ''1h'' date) dates)
                                   (take k symbols))"
        and c: "successful_count (multi_day_loop w dates target_count symbols st1)
          = successful_count st1 + int (length (filter (has_data w dates) (take k symbols)))"
        and d: "fst ` set (all_symbol_data (multi_day_loop w dates target_count symbols st1))
          = fst ` set (all_symbol_data st1) \<union> set (filter (has_data w dates) (take k symbols))"
        and e: "k < length symbols \<longrightarrow>
          successful_count (multi_day_loop w dates target_count symbols st1) \<ge> target_count"
        and b: "\<forall>j < k. successful_count st1 + int (length (filter (has_data w dates) (take j symbols)))
                  < target_count"
      by blast
    have below: "successful_count st + int (length (filter (has_data w dates) (take j (symbol # symbols))))
                  < target_count" if "j < Suc k" for j
    proof (cases j)
      case 0
      with False show ?thesis by simp
    next
      case (Suc j')
      with that have "j' < k" by simp
      with b have "successful_count st1 + int (length (filter (has_data w dates) (take j' symbols)))
                  < target_count" by blast
      with Suc sc show ?thesis by (cases "has_data w dates symbol") simp_all
    qed
    show ?thesis
    proof (intro exI [of _ "Suc k"] conjI)
      show "Suc k \<le> length (symbol # symbols)" using k by simp
      show "requests (multi_day_loop w dates target_count (symbol # symbols) st)
        = requests st @ concat (map (\<lambda>symbol. map (\<lambda>date. VisionArchive symbol ''1h'' date) dates)
                                 (take (Suc k) (symbol # symbols)))"
        unfolding run r rq by simp
      show "successful_count (multi_day_loop w dates target_count (symbol # symbols) st)
        = successful_count st
            + int (length (filter (has_data w dates) (take (Suc k) (symbol # symbols))))"
        unfolding run c sc by simp
      show "fst ` set (all_symbol_data (multi_day_loop w dates target_count (symbol # symbols) st))
        = fst ` set (all_symbol_data st)
            \<union> set (filter (has_data w dates) (take (Suc k) (symbol # symbols)))"
        unfolding run d ks by auto
      show "Suc k < length (symbol # symbols) \<longrightarrow>
          successful_count (multi_day_loop w dates target_count (symbol # symbols) st) \<ge> target_count"
        using e unfolding run by simp
      show "\<forall>j < Suc k. successful_count st
                + int (length (filter (has_data w dates) (take j (symbol # symbols))))
                  < target_count"
        using below by blast
    qed
  qed
qed

lemma multi_day_fetch_given:
  "multi_day_fetch w (Some symbols) start_date end_date api_key target_count
     = multi_day_loop w (multi_day_dates w start_date end_date) target_count symbols
         \<lparr>all_symbol_data = [], successful_count = 0, requests = []\<rparr>"
  by (simp add: multi_day_fetch_def select_symbols_def)

lemma has_data_iff:
  "has_data w dates symbol
     \<longleftrightarrow> (\<exists>date \<in> set dates. get_binance_vision_data w symbol (Some date) ''1h'' \<noteq> None)"
  by (simp add: has_data_def list_ex_iff del: not_None_eq)

text \<open>
  Claim C6. In multi-day mode, for every symbol list and date range, there is a number
  \<open>k\<close> of symbols whose fetching is started, and
  \<^item> the archive requests issued are, symbol by symbol for the first \<open>k\<close> symbols, one
    request for every date of the range in date order: the day loop of a symbol that is
    started runs to completion, and no request is issued for a later symbol;
  \<^item> the symbols recorded in \<^verbatim>\<open>all_symbol_data\<close> are exactly those among the first \<open>k\<close> for
    which at least one date returned data, and \<^verbatim>\<open>successful_count\<close> counts them;
  \<^item> if a symbol is left unvisited, the target count has been reached;
  \<^item> a symbol is started only while fewer than \<open>target_count\<close> of the symbols before it
    have succeeded.
\<close>

theorem multi_day_visits_prefix:
  "\<exists>k \<le> length symbols.
      requests (multi_day_fetch w (Some symbols) start_date end_date api_key target_count)
        = concat (map (\<lambda>symbol. map (\<lambda>date. VisionArchive symbol ''1h'' date)
                                    (multi_day_dates w start_date end_date))
                      (take k symbols))
    \<and> fst ` set (all_symbol_data (multi_day_fetch w (Some symbols) start_date end_date api_key target_count))
        = {symbol \<in> set (take k symbols).
             \<exists>date \<in> set (multi_day_dates w start_date end_date).
                get_binance_vision_data w symbol (Some date) ''1h'' \<noteq> None}
    \<and> successful_count (multi_day_fetch w (Some symbols) start_date end_date api_key target_count)
        = int (length (filter (has_data w (multi_day_dates w start_date end_date)) (take k symbols)))
    \<and> (k < length symbols \<longrightarrow>
          successful_count (multi_day_fetch w (Some symbols) start_date end_date api_key target_count)
            \<ge> target_count)
    \<and> (\<forall>j < k. int (length (filter (has_data w (multi_day_dates w start_date end_date)) (take j symbols)))
                  < target_count)"
proof -
  let ?dates = "multi_day_dates w start_date end_date"
  let ?st = "multi_day_fetch w (Some symbols) start_date end_date api_key target_count"
  have "\<exists>k \<le> length symbols.
      requests ?st
        = concat (map (\<lambda>symbol. map (\<lambda>date. VisionArchive symbol ''1h'' date) ?dates) (take k symbols))
    \<and> successful_count ?st = int (length (filter (has_data w ?dates) (take k symbols)))
    \<and> fst ` set (all_symbol_data ?st) = set (filter (has_data w ?dates) (take k symbols))
    \<and> (k < length symbols \<longrightarrow> successful_count ?st \<ge> target_count)
    \<and> (\<forall>j < k. int (length (filter (has_data w ?dates) (take j symbols))) < target_count)"
    using multi_day_loop_trace [where symbols = symbols and w = w and dates = ?dates
         and target_count = target_count
         and st = "\<lparr>all_symbol_data = [], successful_count = 0, requests = []\<rparr>"]
    unfolding multi_day_fetch_given by simp
  then obtain k where k: "k \<le> length symbols"
    and r: "requests ?st
        = concat (map (\<lambda>symbol. map (\<lambda>date. VisionArchive symbol ''1h'' date) ?dates) (take k symbols))"
    and c: "successful_count ?st = int (length (filter (has_data w ?dates) (take k symbols)))"
    and d: "fst ` set (all_symbol_data ?st) = set (filter (has_data w ?dates) (take k symbols))"
    and e: "k < length symbols \<longrightarrow> successful_count ?st \<ge> target_count"
    and b: "\<forall>j < k. int (length (filter (has_data w ?dates) (take j symbols))) < target_count"
    by (elim exE conjE)
  have keys: "set (filter (has_data w ?dates) (take k symbols))
      = {symbol \<in> set (take k symbols).
             \<exists>date \<in> set ?dates. get_binance_vision_data w symbol (Some date) ''1h'' \<noteq> None}"
    by (auto simp: has_data_iff simp del: not_None_eq)
  from k r c d [unfolded keys] e b show ?thesis
    by (intro exI [of _ k] conjI)
qed

text \<open>With target 2 and four symbols of which the second has no data, three symbols are
  fetched for all three days and the fourth is never asked for.\<close>

theorem multi_day_visits_prefix_witness:
  "requests (multi_day_fetch example_world (Some [''BTCUSDT'', ''XUSDT'', ''ETHUSDT'', ''SOLUSDT''])
       (Some ''2024-01-01'') (Some ''2024-01-03'') None 2)
     = [VisionArchive ''BTCUSDT'' ''1h'' ''2024-01-01'', VisionArchive ''BTCUSDT'' ''1h'' ''2024-01-02'',
        VisionArchive ''BTCUSDT'' ''1h'' ''2024-01-03'',
        VisionArchive ''XUSDT'' ''1h'' ''2024-01-01'', VisionArchive ''XUSDT'' ''1h'' ''2024-01-02'',
        VisionArchive ''XUSDT'' ''1h'' ''2024-01-03'',
        VisionArchive ''ETHUSDT'' ''1h'' ''2024-01-01'', VisionArchive ''ETHUSDT'' ''1h'' ''2024-01-02'',
        VisionArchive ''ETHUSDT'' ''1h'' ''2024-01-03'']
   \<and> map fst (all_symbol_data (multi_day_fetch example_world
         (Some [''BTCUSDT'', ''XUSDT'', ''ETHUSDT'', ''SOLUSDT''])
         (Some ''2024-01-01'') (Some ''2024-01-03'') None 2)) = [''BTCUSDT'', ''ETHUSDT'']
   \<and> successful_count (multi_day_fetch example_world
         (Some [''BTCUSDT'', ''XUSDT'', ''ETHUSDT'', ''SOLUSDT''])
         (Some ''2024-01-01'') (Some ''2024-01-03'') None 2) = 2
   \<and> (\<exists>k \<le> length [''BTCUSDT'', ''XUSDT'', ''ETHUSDT'', ''SOLUSDT''].
        requests (multi_day_fetch example_world (Some [''BTCUSDT'', ''XUSDT'', ''ETHUSDT'', ''SOLUSDT''])
            (Some ''2024-01-01'') (Some ''2024-01-03'') None 2)
          = concat (map (\<lambda>symbol. map (\<lambda>date. VisionArchive symbol ''1h'' date)
                          (multi_day_dates example_world (Some ''2024-01-01'') (Some ''2024-01-03'')))
                      (take k [''BTCUSDT'', ''XUSDT'', ''ETHUSDT'', ''SOLUSDT''])))"
proof -
  let ?symbols = "[''BTCUSDT'', ''XUSDT'', ''ETHUSDT'', ''SOLUSDT'']"
  let ?st = "multi_day_fetch example_world (Some ?symbols) (Some ''2024-01-01'') (Some ''2024-01-03'') None 2"
  have v1: "requests ?st
     = [VisionArchive ''BTCUSDT'' ''1h'' ''2024-01-01'', VisionArchive ''BTCUSDT'' ''1h'' ''2024-01-02'',
        VisionArchive ''BTCUSDT'' ''1h'' ''2024-01-03'',
        VisionArchive ''XUSDT'' ''1h'' ''2024-01-01'', VisionArchive ''XUSDT'' ''1h'' ''2024-01-02'',
        VisionArchive ''XUSDT'' ''1h'' ''2024-01-03'',
        VisionArchive ''ETHUSDT'' ''1h'' ''2024-01-01'', VisionArchive ''ETHUSDT'' ''1h'' ''2024-01-02'',
        VisionArchive ''ETHUSDT'' ''1h'' ''2024-01-03'']"
    by code_simp
  have v2: "map fst (all_symbol_data ?st) = [''BTCUSDT'', ''ETHUSDT'']"
    by code_simp
  have v3: "successful_count ?st = 2"
    by code_simp
  from multi_day_visits_prefix [where w = example_world and symbols = ?symbols
      and start_date = "Some ''2024-01-01''" and end_date = "Some ''2024-01-03''"
      and api_key = None and target_count = 2]
  obtain k where "k \<le> length ?symbols"
    and "requests ?st
          = concat (map (\<lambda>symbol. map (\<lambda>date. VisionArchive symbol ''1h'' date)
                          (multi_day_dates example_world (Some ''2024-01-01'') (Some ''2024-01-03'')))
                      (take k ?symbols))"
    by (elim exE conjE)
  then have v4: "\<exists>k \<le> length ?symbols.
        requests ?st
          = concat (map (\<lambda>symbol. map (\<lambda>date. VisionArchive symbol ''1h'' date)
                          (multi_day_dates example_world (Some ''2024-01-01'') (Some ''2024-01-03'')))
                      (take k ?symbols))"
    by (intro exI [of _ k] conjI)
  from v1 v2 v3 v4 show ?thesis by (intro conjI)
qed

text \<open>The requests the loop adds are all for the timeframe \<^verbatim>\<open>'1h'\<close>.\<close>

lemma multi_day_loop_timeframe:
  assumes "r \<in> set (requests (multi_day_loop w dates target_count symbols st))"
  shows "r \<in> set (requests st) \<or> (\<exists>symbol date. r = VisionArchive symbol ''1h'' date)"
proof -
  from multi_day_loop_trace [where symbols = symbols and w = w and dates = dates
         and target_count = target_count and st = st]
  obtain k where "requests (multi_day_loop w dates target_count symbols st)
        = requests st @ concat (map (\<lambda>symbol. map (\<lambda>date. VisionArchive symbol ''1h'' date) dates)
                                 (take k symbols))"
    by (elim exE conjE)
  with assms show ?thesis by auto
qed

text \<open>
  Claim C9, as amended. \<^verbatim>\<open>get_crypto_data_multi_day\<close> has no timeframe parameter: for every
  symbol list (given, or selected), date range, key and target count, every per-day
  archive fetch it issues is for the fixed timeframe \<^verbatim>\<open>'1h'\<close>.
\<close>

theorem multi_day_timeframe_fixed:
  "r \<in> set (requests (multi_day_fetch w symbols start_date end_date api_key target_count)) \<Longrightarrow>
   \<exists>symbol date. r = VisionArchive symbol ''1h'' date"
  using multi_day_loop_timeframe
    [where st = "\<lparr>all_symbol_data = [], successful_count = 0, requests = []\<rparr>"]
  by (fastforce simp: multi_day_fetch_def Let_def)

text \<open>One of the six requests for two symbols over three days.\<close>

theorem multi_day_timeframe_fixed_witness:
  "VisionArchive ''ETHUSDT'' ''1h'' ''2024-01-02''
     \<in> set (requests (multi_day_fetch example_world (Some [''BTCUSDT'', ''ETHUSDT''])
                (Some ''2024-01-01'') (Some ''2024-01-03'') None 10))
   \<and> (\<exists>symbol date. VisionArchive ''ETHUSDT'' ''1h'' ''2024-01-02'' = VisionArchive symbol ''1h'' date)"
proof -
  have h: "VisionArchive ''ETHUSDT'' ''1h'' ''2024-01-02''
     \<in> set (requests (multi_day_fetch example_world (Some [''BTCUSDT'', ''ETHUSDT''])
                (Some ''2024-01-01'') (Some ''2024-01-03'') None 10))"
    by code_simp
  from multi_day_timeframe_fixed [OF h] h show ?thesis by (intro conjI)
qed

text \<open>
  Claim C9 as stated fails. The \<^verbatim>\<open>def\<close> line of the function names no \<^verbatim>\<open>timeframe\<close>
  parameter, so a caller cannot supply one; the call \<^verbatim>\<open>get_binance_vision_data(symbol,
  date=date, timeframe='1h')\<close> at line 346 passes a literal. A caller who wants the 4h
  candles of \<^verbatim>\<open>BTCUSDT\<close> for one day gets the 1h file requested, and no request for 4h.
\<close>

theorem multi_day_timeframe_counterexample:
  "''timeframe'' \<notin> set get_crypto_data_multi_day_parameters
   \<and> requests (multi_day_fetch example_world (Some [''BTCUSDT''])
        (Some ''2024-01-01'') (Some ''2024-01-01'') None 10)
       = [VisionArchive ''BTCUSDT'' ''1h'' ''2024-01-01'']
   \<and> VisionArchive ''BTCUSDT'' ''4h'' ''2024-01-01''
       \<notin> set (requests (multi_day_fetch example_world (Some [''BTCUSDT''])
                  (Some ''2024-01-01'') (Some ''2024-01-01'') None 10))"
  by code_simp

text \<open>The \<^verbatim>\<open>ValueError\<close> of the multi-day mode is raised exactly when no symbol was
  recorded.\<close>

lemma multi_day_no_data_iff:
  "get_crypto_data_multi_day w symbols start_date end_date api_key target_count = Inl NoDataError
   \<longleftrightarrow> all_symbol_data (multi_day_fetch w symbols start_date end_date api_key target_count) = []"
  by (auto simp: get_crypto_data_multi_day_def Let_def report_date_range_def
      split: sum.splits dest: merge_series_error)

end

